theory Spec2Isabelle
  imports Complex_Main
begin

section \<open>Data model\<close>

text \<open>
  The dashboard editor of \<^verbatim>\<open>src/script.js\<close> lays widgets out in rows of a responsive
  grid.  JavaScript numbers are modelled by exact numbers: column spans and column counts
  are integers (\<open>int\<close>), heights in rem and pixel coordinates are rationals (\<open>rat\<close>).  The
  source computes in binary floating point.  Every height the editor gives a widget is one
  of the integers 10, 16, 22, 32, 46 of the table \<^verbatim>\<open>TOKENS.minHeightsRem\<close>, and the only
  fraction is the gap 0.75: on these the sums that the composer forms are exact in floating
  point, and the model computes what the source computes.  For other heights a sum of the
  source may be rounded, so the properties of the composer that depend on the sums are
  stated for widgets whose height is in the table.

  A widget object \<^verbatim>\<open>{id, size, title, minColSpan, minHeightRem, heightMode}\<close>.  The fields
  \<^verbatim>\<open>id\<close> and \<^verbatim>\<open>size\<close> are renamed, since HOL has constants of these names.
\<close>

record widget =
  widget_id :: string
  widget_size :: string
  title :: string
  minColSpan :: int
  minHeightRem :: rat
  heightMode :: string

text \<open>A RowBlock object \<^verbatim>\<open>{kind: 'rowblock', main, rail, id}\<close>.\<close>

record rowblock =
  main :: widget
  rail :: "widget list"
  rowblock_id :: string

text \<open>
  The arrays handled by the composer and the packer hold widgets and RowBlocks; a RowBlock
  is told apart by its \<^verbatim>\<open>kind\<close> field, which is the constructor here.
\<close>

datatype layout_item = Widget widget | RowBlock rowblock

text \<open>A cell \<^verbatim>\<open>{item, span}\<close>; the flag \<^verbatim>\<open>distributeEqually\<close> is absent (falsy) until set.\<close>

record cell =
  item :: layout_item
  span :: int
  distributeEqually :: bool

record row =
  cells :: "cell list"

text \<open>The fields of \<^verbatim>\<open>this.layoutConfig\<close> that the composer reads.\<close>

definition maxRailItems :: nat where
  "maxRailItems = 4"

definition toleranceRem :: rat where
  "toleranceRem = 2"

definition vGapRem :: rat where
  "vGapRem = 3 / 4"

section \<open>Responsive column resolver\<close>

definition getColCountFromWidth :: "rat \<Rightarrow> int" where
  "getColCountFromWidth containerWidth =
     (if containerWidth \<ge> 1200 then 4
      else if containerWidth \<ge> 900 then 3
      else if containerWidth \<ge> 600 then 2
      else 1)"

definition effectiveSpan :: "widget \<Rightarrow> int \<Rightarrow> int" where
  "effectiveSpan w colCount = min (minColSpan w) colCount"

fun isRowBlock :: "layout_item \<Rightarrow> bool" where
  "isRowBlock (RowBlock rb) = True"
| "isRowBlock (Widget w) = False"

definition itemSpan :: "layout_item \<Rightarrow> int \<Rightarrow> int" where
  "itemSpan it colCount =
     (case it of RowBlock rb \<Rightarrow> colCount | Widget w \<Rightarrow> effectiveSpan w colCount)"

section \<open>RowBlock composer\<close>

text \<open>
  \<^verbatim>\<open>xs.splice(start, deleteCount, ...ins)\<close> on an array, for \<open>start\<close> and \<open>deleteCount\<close> that
  are not negative: JavaScript clamps both to the array, as \<open>take\<close> and \<open>drop\<close> do.
\<close>

definition splice :: "nat \<Rightarrow> nat \<Rightarrow> 'a list \<Rightarrow> 'a list \<Rightarrow> 'a list" where
  "splice start deleteCount ins xs = take start xs @ ins @ drop (start + deleteCount) xs"

text \<open>
  The closure \<^verbatim>\<open>canTake\<close>; the variables \<^verbatim>\<open>railCount\<close>, \<^verbatim>\<open>railHeight\<close>, \<^verbatim>\<open>railTarget\<close> it
  captures are arguments.  The sum \<^verbatim>\<open>railHeight + addGap + candidate.minHeightRem\<close> and the
  running sum \<^verbatim>\<open>railHeight += addGap + minHeightRem\<close> of both scans are sums of rationals
  here; they are the sums of the source when the heights are those of the table.
\<close>

definition canTake :: "int \<Rightarrow> rat \<Rightarrow> rat \<Rightarrow> nat \<Rightarrow> widget \<Rightarrow> bool" where
  "canTake colCount railTarget railHeight railCount candidate =
     (if railCount \<ge> maxRailItems then False
      else if effectiveSpan candidate colCount \<noteq> 1 then False
      else railHeight + (if railCount > 0 then vGapRem else 0) + minHeightRem candidate
             \<le> railTarget)"

text \<open>
  The backward scan \<^verbatim>\<open>while (k >= 0)\<close>.  The counter of the model is \<open>k + 1\<close>, a natural
  number, so that the loop ends at \<open>0\<close>; the first component of the result is
  \<^verbatim>\<open>startPrev = k + 1\<close> at the exit of the loop, followed by \<^verbatim>\<open>capturedPrev\<close>,
  \<^verbatim>\<open>railHeight\<close> and \<^verbatim>\<open>railCount\<close>.
\<close>

fun capturePrev ::
  "layout_item list \<Rightarrow> int \<Rightarrow> rat \<Rightarrow> nat \<Rightarrow> widget list \<Rightarrow> rat \<Rightarrow> nat
     \<Rightarrow> nat \<times> widget list \<times> rat \<times> nat" where
  "capturePrev items colCount railTarget 0 capturedPrev railHeight railCount =
     (0, capturedPrev, railHeight, railCount)"
| "capturePrev items colCount railTarget (Suc k) capturedPrev railHeight railCount =
     (case items ! k of
        RowBlock rb \<Rightarrow> (Suc k, capturedPrev, railHeight, railCount)
      | Widget pw \<Rightarrow>
          if effectiveSpan pw colCount \<noteq> 1 then (Suc k, capturedPrev, railHeight, railCount)
          else if \<not> canTake colCount railTarget railHeight railCount pw
            then (Suc k, capturedPrev, railHeight, railCount)
          else capturePrev items colCount railTarget k (capturedPrev @ [pw])
                 (railHeight + (if railCount > 0 then vGapRem else 0) + minHeightRem pw)
                 (Suc railCount))"

text \<open>
  The forward scan \<^verbatim>\<open>while (j < items.length)\<close>; it returns \<^verbatim>\<open>capturedNext\<close>,
  \<^verbatim>\<open>railHeight\<close> and \<^verbatim>\<open>railCount\<close>.
\<close>

function captureNext ::
  "layout_item list \<Rightarrow> int \<Rightarrow> rat \<Rightarrow> nat \<Rightarrow> widget list \<Rightarrow> rat \<Rightarrow> nat
     \<Rightarrow> widget list \<times> rat \<times> nat" where
  "captureNext items colCount railTarget j capturedNext railHeight railCount =
     (if j < length items then
        (case items ! j of
           RowBlock rb \<Rightarrow> (capturedNext, railHeight, railCount)
         | Widget next \<Rightarrow>
             if effectiveSpan next colCount \<noteq> 1 then (capturedNext, railHeight, railCount)
             else if \<not> canTake colCount railTarget railHeight railCount next
               then (capturedNext, railHeight, railCount)
             else captureNext items colCount railTarget (j + 1) (capturedNext @ [next])
                    (railHeight + (if railCount > 0 then vGapRem else 0) + minHeightRem next)
                    (Suc railCount))
      else (capturedNext, railHeight, railCount))"
  by pat_completeness auto
termination
  by (relation "measure (\<lambda>(items, colCount, railTarget, j, rest). length items - j)") auto

declare captureNext.simps [simp del]

text \<open>
  The body of the main loop for a seed \<open>w = items[i]\<close> of effective span 3: both scans, the
  removal of the captured items and the replacement of the seed by the RowBlock.  It
  returns the array and the index \<open>i\<close> as they stand before the final \<^verbatim>\<open>i++\<close>.
  \<^verbatim>\<open>countPrev = i - startPrev\<close> is never negative, as \<open>startPrev \<le> i\<close>.
\<close>

definition seedStep ::
  "layout_item list \<Rightarrow> int \<Rightarrow> nat \<Rightarrow> widget \<Rightarrow> layout_item list \<times> nat" where
  "seedStep items colCount i w =
     (let railTarget = minHeightRem w + toleranceRem;
          (startPrev, capturedPrev, railHeight, railCount) =
             capturePrev items colCount railTarget i [] 0 0;
          (items1, capturedNext) =
             (if length capturedPrev = 0 then
                (let (capturedNext, railHeight', railCount') =
                       captureNext items colCount railTarget (i + 1) [] railHeight railCount
                 in (if length capturedNext > 0
                       then splice (i + 1) (length capturedNext) [] items else items,
                     capturedNext))
              else (items, []));
          rb = \<lparr>main = w, rail = rev capturedPrev @ capturedNext,
                rowblock_id = ''rb-'' @ widget_id w\<rparr>
      in if length (rail rb) > 0 then
           (let (items2, i2) =
                  (if length capturedPrev > 0 then
                     (let countPrev = i - startPrev
                      in if countPrev > 0
                           then (splice startPrev countPrev [] items1, startPrev)
                           else (items1, i))
                   else (items1, i))
            in (splice i2 1 [RowBlock rb] items2, i2))
         else (items1, i))"

subsection \<open>What one seed step does to the array\<close>

text \<open>
  The main loop of the composer changes the array it runs over, so its termination needs
  the shape of the result of a seed step first.
\<close>

lemma take_Suc_drop_nth:
  "sp \<le> k \<Longrightarrow> k < length xs \<Longrightarrow>
     take (Suc k - sp) (drop sp xs) = take (k - sp) (drop sp xs) @ [xs ! k]"
proof -
  assume a: "sp \<le> k" "k < length xs"
  then have "k - sp < length (drop sp xs)" by simp
  then have "take (Suc (k - sp)) (drop sp xs) = take (k - sp) (drop sp xs) @ [drop sp xs ! (k - sp)]"
    by (rule take_Suc_conv_app_nth)
  moreover have "drop sp xs ! (k - sp) = xs ! k" using a by simp
  moreover have "Suc k - sp = Suc (k - sp)" using a by simp
  ultimately show ?thesis by simp
qed

lemma capturePrev_shape:
  "capturePrev items colCount railTarget kp cap h c = (sp, cap', h', c') \<Longrightarrow> kp \<le> length items \<Longrightarrow>
     \<exists>ws. cap' = cap @ ws \<and> sp \<le> kp \<and> length ws = kp - sp \<and> c' = c + length ws \<and>
          map Widget (rev ws) = take (kp - sp) (drop sp items) \<and>
          (\<forall>w \<in> set ws. effectiveSpan w colCount = 1)"
proof (induction kp arbitrary: cap h c)
  case 0
  then show ?case by simp
next
  case (Suc k)
  show ?case
  proof (cases "items ! k")
    case (RowBlock rb)
    with Suc.prems show ?thesis by simp
  next
    case (Widget pw)
    show ?thesis
    proof (cases "effectiveSpan pw colCount \<noteq> 1 \<or> \<not> canTake colCount railTarget h c pw")
      case True
      with Suc.prems Widget show ?thesis by (auto split: if_splits)
    next
      case False
      let ?h = "h + (if c > 0 then vGapRem else 0) + minHeightRem pw"
      from False Suc.prems Widget
      have rec: "capturePrev items colCount railTarget k (cap @ [pw]) ?h (Suc c) = (sp, cap', h', c')"
        by simp
      from Suc.prems have kl: "k \<le> length items" "k < length items" by simp_all
      from Suc.IH[OF rec kl(1)] obtain ws where
        ih: "cap' = (cap @ [pw]) @ ws" "sp \<le> k" "length ws = k - sp" "c' = Suc c + length ws"
        "map Widget (rev ws) = take (k - sp) (drop sp items)"
        "\<forall>w \<in> set ws. effectiveSpan w colCount = 1"
        by blast
      have m: "map Widget (rev (pw # ws)) = take (Suc k - sp) (drop sp items)"
        using ih(5) take_Suc_drop_nth[OF ih(2) kl(2)] Widget by simp
      have "cap' = cap @ (pw # ws)" using ih(1) by simp
      moreover have "sp \<le> Suc k" using ih(2) by simp
      moreover have "length (pw # ws) = Suc k - sp" using ih(2,3) by simp
      moreover have "c' = c + length (pw # ws)" using ih(4) by simp
      moreover have "\<forall>w \<in> set (pw # ws). effectiveSpan w colCount = 1" using ih(6) False by simp
      ultimately show ?thesis using m by blast
    qed
  qed
qed

lemma captureNext_shape:
  "captureNext items colCount railTarget j cap h c = (cap', h', c') \<Longrightarrow>
     \<exists>ws. cap' = cap @ ws \<and> j + length ws \<le> max j (length items) \<and> c' = c + length ws \<and>
          map Widget ws = take (length ws) (drop j items) \<and>
          (\<forall>w \<in> set ws. effectiveSpan w colCount = 1)"
proof (induction items colCount railTarget j cap h c rule: captureNext.induct)
  case (1 items colCount railTarget j cap h c)
  show ?case
  proof (cases "j < length items")
    case False
    with "1.prems" show ?thesis by (simp add: captureNext.simps[of items])
  next
    case jl: True
    show ?thesis
    proof (cases "items ! j")
      case (RowBlock rb)
      with "1.prems" jl show ?thesis by (simp add: captureNext.simps[of items])
    next
      case (Widget nx)
      show ?thesis
      proof (cases "effectiveSpan nx colCount \<noteq> 1 \<or> \<not> canTake colCount railTarget h c nx")
        case True
        with "1.prems" jl Widget show ?thesis
          by (auto simp: captureNext.simps[of items] split: if_splits)
      next
        case False
        let ?h = "h + (if c > 0 then vGapRem else 0) + minHeightRem nx"
        from False "1.prems" Widget jl
        have rec: "captureNext items colCount railTarget (j + 1) (cap @ [nx]) ?h (Suc c) = (cap', h', c')"
          by (simp add: captureNext.simps[of items colCount railTarget j])
        from False have f2: "\<not> effectiveSpan nx colCount \<noteq> 1" "\<not> \<not> canTake colCount railTarget h c nx"
          by simp_all
        from "1.IH"[OF jl Widget f2 rec] obtain ws where
          ih: "cap' = (cap @ [nx]) @ ws" "j + 1 + length ws \<le> max (j + 1) (length items)"
          "c' = Suc c + length ws" "map Widget ws = take (length ws) (drop (j + 1) items)"
          "\<forall>w \<in> set ws. effectiveSpan w colCount = 1"
          by blast
        have d: "drop j items = items ! j # drop (j + 1) items"
          using jl by (simp add: Cons_nth_drop_Suc)
        have m: "map Widget (nx # ws) = take (length (nx # ws)) (drop j items)"
          using ih(4) d Widget by simp
        have "cap' = cap @ (nx # ws)" using ih(1) by simp
        moreover have "j + length (nx # ws) \<le> max j (length items)" using ih(2) jl by simp
        moreover have "c' = c + length (nx # ws)" using ih(3) by simp
        moreover have "\<forall>w \<in> set (nx # ws). effectiveSpan w colCount = 1" using ih(5) False by simp
        ultimately show ?thesis using m by blast
      qed
    qed
  qed
qed

lemma seedStep_back:
  assumes il: "i \<le> length items"
    and cp: "capturePrev items colCount (minHeightRem w + toleranceRem) i [] 0 0 = (sp, cp, h, c)"
    and ne: "cp \<noteq> []"
  shows "sp < i \<and> seedStep items colCount i w =
     (take sp items @ [RowBlock \<lparr>main = w, rail = rev cp, rowblock_id = ''rb-'' @ widget_id w\<rparr>]
        @ drop (Suc i) items, sp)"
proof -
  from capturePrev_shape[OF cp il] have len: "sp \<le> i" "length cp = i - sp" by auto
  with ne have lt: "sp < i" by (cases "sp = i") auto
  have t: "take sp (take sp items @ drop i items) = take sp items"
    using lt il by simp
  have d: "drop (Suc sp) (take sp items @ drop i items) = drop (Suc i) items"
    using lt il by (simp add: min_absorb2)
  show ?thesis
    using lt ne cp t d by (simp add: seedStep_def Let_def splice_def)
qed

lemma seedStep_fwd:
  assumes il: "i < length items"
    and cp: "capturePrev items colCount (minHeightRem w + toleranceRem) i [] 0 0 = (sp, [], h, c)"
    and cn: "captureNext items colCount (minHeightRem w + toleranceRem) (i + 1) [] h c = (cn, h2, c2)"
  shows "seedStep items colCount i w =
     (if cn = [] then (items, i)
      else (take i items @ [RowBlock \<lparr>main = w, rail = cn, rowblock_id = ''rb-'' @ widget_id w\<rparr>]
              @ drop (i + 1 + length cn) items, i))"
proof -
  have t: "take i (take (Suc i) items @ drop (Suc (i + length cn)) items) = take i items"
    using il by (simp add: min_absorb2)
  have d: "drop (Suc i) (take (Suc i) items @ drop (Suc (i + length cn)) items)
             = drop (Suc (i + length cn)) items"
    using il by (simp add: min_absorb2)
  show ?thesis
    using cp cn t d by (simp add: seedStep_def Let_def splice_def)
qed

lemma seedStep_length:
  assumes il: "i < length items" and st: "seedStep items colCount i w = (items', i')"
  shows "i' < length items' \<and> length items' - i' \<le> length items - i"
proof -
  obtain sp cp h c where cp: "capturePrev items colCount (minHeightRem w + toleranceRem) i [] 0 0 = (sp, cp, h, c)"
    by (metis prod_cases4)
  show ?thesis
  proof (cases "cp = []")
    case False
    from seedStep_back[OF less_imp_le[OF il] cp False] st il show ?thesis by auto
  next
    case True
    obtain cn h2 c2 where cn: "captureNext items colCount (minHeightRem w + toleranceRem) (i + 1) [] h c = (cn, h2, c2)"
      by (metis prod_cases3)
    from captureNext_shape[OF cn] il have b: "i + 1 + length cn \<le> length items" by auto
    from seedStep_fwd[OF il cp[unfolded True] cn] st il b show ?thesis
      by (auto split: if_splits)
  qed
qed

text \<open>
  The main loop \<^verbatim>\<open>while (i < items.length)\<close>.  Each round either moves \<open>i\<close> forward or
  shortens the array behind a fixed \<open>i\<close>, so \<open>items.length - i\<close> decreases.
\<close>

function rowBlockLoop :: "layout_item list \<Rightarrow> int \<Rightarrow> nat \<Rightarrow> layout_item list" where
  "rowBlockLoop items colCount i =
     (if i < length items then
        (case items ! i of
           RowBlock rb \<Rightarrow> rowBlockLoop items colCount (i + 1)
         | Widget w \<Rightarrow>
             if effectiveSpan w colCount \<noteq> 3 then rowBlockLoop items colCount (i + 1)
             else (case seedStep items colCount i w of
                     (items', i') \<Rightarrow> rowBlockLoop items' colCount (i' + 1)))
      else items)"
  by pat_completeness auto
termination
proof (relation "measure (\<lambda>(items, colCount, i). length items - i)")
  fix items :: "layout_item list" and colCount :: int and i :: nat and w x y
  assume "i < length items" and "(x, y) = seedStep items colCount i w"
  then have "y < length x \<and> length x - y \<le> length items - i"
    using seedStep_length[of i items colCount w x y] by simp
  then show "((x, colCount, y + 1), items, colCount, i) \<in> measure (\<lambda>(items, colCount, i). length items - i)"
    by auto
qed auto

declare rowBlockLoop.simps [simp del]

text \<open>
  \<^verbatim>\<open>transformRowBlocks(widgetsInOrder, colCount)\<close>.  The copy \<^verbatim>\<open>[...widgetsInOrder]\<close> is the
  list itself in this value model; the store model further down makes the copy explicit.
\<close>

definition transformRowBlocks :: "layout_item list \<Rightarrow> int \<Rightarrow> layout_item list" where
  "transformRowBlocks widgetsInOrder colCount =
     (if colCount \<noteq> 4 then widgetsInOrder else rowBlockLoop widgetsInOrder colCount 0)"

section \<open>Row packer\<close>

text \<open>
  \<^verbatim>\<open>expandableWidgets.forEach((cell, idx) => ...)\<close> writes the new span into cell objects
  that \<^verbatim>\<open>currentRow\<close> holds as well (\<^verbatim>\<open>filter\<close> copies references).  So the model walks
  \<^verbatim>\<open>currentRow\<close> itself, counts in \<open>idx\<close> the expandable cells met so far, and leaves the
  RowBlock cells as they are.
\<close>

fun expandCells :: "int \<Rightarrow> int \<Rightarrow> int \<Rightarrow> nat \<Rightarrow> cell list \<Rightarrow> cell list" where
  "expandCells colCount extraPerWidget leftover idx [] = []"
| "expandCells colCount extraPerWidget leftover idx (c # cs) =
     (if isRowBlock (item c) then c # expandCells colCount extraPerWidget leftover idx cs
      else (let extra = extraPerWidget + (if int idx < leftover then 1 else 0)
            in c\<lparr>span := min colCount (span c + extra)\<rparr>
                 # expandCells colCount extraPerWidget leftover (Suc idx) cs))"

text \<open>
  The part of the closure \<^verbatim>\<open>flush\<close> that works on the cells of the row.  In the branch that
  divides, \<open>remaining\<close> and the number of expandable cells are positive, where \<open>div\<close> and
  \<open>mod\<close> are \<^verbatim>\<open>Math.floor(a / b)\<close> and \<^verbatim>\<open>a % b\<close>.
\<close>

definition flushCells :: "int \<Rightarrow> cell list \<Rightarrow> int \<Rightarrow> cell list" where
  "flushCells colCount currentRow used =
     (let remaining = colCount - used
      in if remaining > 0 then
           (let expandableWidgets = filter (\<lambda>c. \<not> isRowBlock (item c)) currentRow
            in if length expandableWidgets > 0 then
                 (let allAreMinSpan = list_all (\<lambda>c. span c = 1) expandableWidgets
                  in if allAreMinSpan \<and> remaining < int (length expandableWidgets)
                     then map (\<lambda>c. c\<lparr>distributeEqually := True\<rparr>) currentRow
                     else (let extraPerWidget = remaining div int (length expandableWidgets);
                               leftover = remaining mod int (length expandableWidgets)
                           in expandCells colCount extraPerWidget leftover 0 currentRow))
               else currentRow)
         else currentRow)"

text \<open>
  The closure \<^verbatim>\<open>flush\<close>: its variables \<^verbatim>\<open>rows\<close>, \<^verbatim>\<open>currentRow\<close> and \<^verbatim>\<open>used\<close> are passed
  in and returned.
\<close>

definition flush :: "int \<Rightarrow> row list \<times> cell list \<times> int \<Rightarrow> row list \<times> cell list \<times> int" where
  "flush colCount st =
     (case st of (rows, currentRow, used) \<Rightarrow>
        if length currentRow = 0 then (rows, currentRow, used)
        else (rows @ [\<lparr>cells = flushCells colCount currentRow used\<rparr>], [], 0))"

text \<open>One round of \<^verbatim>\<open>for (const item of items)\<close>.\<close>

definition packStep ::
  "int \<Rightarrow> layout_item \<Rightarrow> row list \<times> cell list \<times> int \<Rightarrow> row list \<times> cell list \<times> int" where
  "packStep colCount it st =
     (let span = itemSpan it colCount
      in if span \<ge> colCount then
           (case flush colCount st of (rows, currentRow, used) \<Rightarrow>
              (rows @ [\<lparr>cells = [\<lparr>item = it, span = colCount, distributeEqually = False\<rparr>]\<rparr>],
               currentRow, used))
         else
           (case (if snd (snd st) + span > colCount then flush colCount st else st) of
              (rows, currentRow, used) \<Rightarrow>
                (rows, currentRow @ [\<lparr>item = it, span = span, distributeEqually = False\<rparr>],
                 used + span)))"

fun packLoop ::
  "int \<Rightarrow> layout_item list \<Rightarrow> row list \<times> cell list \<times> int \<Rightarrow> row list \<times> cell list \<times> int" where
  "packLoop colCount [] st = st"
| "packLoop colCount (it # items) st = packLoop colCount items (packStep colCount it st)"

definition packRows :: "layout_item list \<Rightarrow> int \<Rightarrow> row list" where
  "packRows items colCount = fst (flush colCount (packLoop colCount items ([], [], 0)))"

section \<open>Sections, layout and the fit check\<close>

text \<open>A filter chip \<^verbatim>\<open>{id, label}\<close> and a filter group as \<^verbatim>\<open>createFilterGroup\<close> builds it.\<close>

record chip =
  chip_id :: string
  label :: string

record filterGroup =
  group_id :: string
  group_title :: string
  filters :: "chip list"
  group_widgets :: "widget list"
  minItemWidthPx :: int
  gapPx :: int
  alignHeightsInRow :: bool

text \<open>
  A section object carries \<^verbatim>\<open>type: 'widget'\<close> with \<^verbatim>\<open>title\<close> and \<^verbatim>\<open>widgets\<close>, or
  \<^verbatim>\<open>type: 'filter-group'\<close> with \<^verbatim>\<open>group\<close>; the editor builds no other.
\<close>

datatype dash_section =
  WidgetSection string string "widget list"
| FilterGroupSection string filterGroup

fun section_id :: "dash_section \<Rightarrow> string" where
  "section_id (WidgetSection sid ttl ws) = sid"
| "section_id (FilterGroupSection sid g) = sid"

text \<open>The result of \<^verbatim>\<open>layoutSection\<close>, \<^verbatim>\<open>{type, colCount, rows}\<close>; the fields \<^verbatim>\<open>group\<close> and
  \<^verbatim>\<open>containerWidth\<close> exist for filter groups only.\<close>

record layout =
  layout_type :: string
  layout_colCount :: int
  layout_rows :: "row list"
  layout_group :: "filterGroup option"
  layout_containerWidth :: "rat option"

definition layoutSection :: "dash_section \<Rightarrow> rat \<Rightarrow> layout" where
  "layoutSection sec width =
     (let cc = getColCountFromWidth width
      in case sec of
           FilterGroupSection sid g \<Rightarrow>
             (let items = transformRowBlocks (map Widget (group_widgets g)) cc;
                  rs = packRows items cc
              in \<lparr>layout_type = ''filter-group'', layout_colCount = cc, layout_rows = rs,
                  layout_group = Some g, layout_containerWidth = Some width\<rparr>)
         | WidgetSection sid ttl ws \<Rightarrow>
             (let items = transformRowBlocks (map Widget ws) cc;
                  rs = packRows items cc
              in \<lparr>layout_type = ''widget'', layout_colCount = cc, layout_rows = rs,
                  layout_group = None, layout_containerWidth = None\<rparr>))"

text \<open>The table \<^verbatim>\<open>this.TOKENS.minHeightsRem\<close> and \<^verbatim>\<open>getWidgetConfig\<close>.\<close>

record widgetConfig =
  cfg_minColSpan :: int
  cfg_minHeightRem :: rat
  cfg_heightMode :: string
  displayName :: string

definition getWidgetConfig :: "string \<Rightarrow> widgetConfig" where
  "getWidgetConfig sz =
     (if sz = ''XS'' then
        \<lparr>cfg_minColSpan = 1, cfg_minHeightRem = 10, cfg_heightMode = ''stretchRow'',
         displayName = ''XS''\<rparr>
      else if sz = ''S'' then
        \<lparr>cfg_minColSpan = 1, cfg_minHeightRem = 16, cfg_heightMode = ''stretchRow'',
         displayName = ''S''\<rparr>
      else if sz = ''M'' then
        \<lparr>cfg_minColSpan = 2, cfg_minHeightRem = 22, cfg_heightMode = ''stretchRow'',
         displayName = ''M''\<rparr>
      else if sz = ''L'' then
        \<lparr>cfg_minColSpan = 3, cfg_minHeightRem = 32, cfg_heightMode = ''stretchRow'',
         displayName = ''L''\<rparr>
      else if sz = ''XL_row'' then
        \<lparr>cfg_minColSpan = 4, cfg_minHeightRem = 46, cfg_heightMode = ''stretchRow'',
         displayName = ''XL (Row)''\<rparr>
      else if sz = ''XL_fill'' then
        \<lparr>cfg_minColSpan = 4, cfg_minHeightRem = 46, cfg_heightMode = ''fillViewport'',
         displayName = ''XL (Fill)''\<rparr>
      else
        \<lparr>cfg_minColSpan = 1, cfg_minHeightRem = 10, cfg_heightMode = ''stretchRow'',
         displayName = ''XS''\<rparr>)"

text \<open>
  The widget object that the editor builds from a size and its config
  (\<^verbatim>\<open>addWidgetToLastSection\<close>, \<^verbatim>\<open>handleDropFromPanel\<close>, and with the id \<^verbatim>\<open>'temp'\<close> in
  \<^verbatim>\<open>canWidgetFitInSection\<close>).
\<close>

definition newWidget :: "string \<Rightarrow> string \<Rightarrow> widget" where
  "newWidget wid sz =
     (let config = getWidgetConfig sz
      in \<lparr>widget_id = wid, widget_size = sz, title = displayName config,
          minColSpan = cfg_minColSpan config, minHeightRem = cfg_minHeightRem config,
          heightMode = cfg_heightMode config\<rparr>)"

text \<open>
  The state of the editor that the fit check and the drop resolver read: the sections, the
  width of the canvas (\<^verbatim>\<open>gridCanvas.offsetWidth\<close>) and the drag state.  A field that holds
  \<^verbatim>\<open>null\<close> is \<open>None\<close>.
\<close>

record editor =
  sections :: "dash_section list"
  offsetWidth :: rat
  isDraggingFromPanel :: bool
  draggedWidgetSize :: "string option"
  draggedWidget :: "widget option"

text \<open>
  A value thrown inside the \<^verbatim>\<open>try\<close> block of the fit check.  The block calls the composer
  and the packer as methods of the editor object; the model takes the two methods as
  arguments that may fail, and runs the block in the error monad, so that the \<^verbatim>\<open>catch\<close>
  branch is a branch of the model.
\<close>

datatype thrown = Thrown string

definition fitSimulation ::
  "(layout_item list \<Rightarrow> int \<Rightarrow> thrown + layout_item list) \<Rightarrow>
   (layout_item list \<Rightarrow> int \<Rightarrow> thrown + row list) \<Rightarrow>
   widget list \<Rightarrow> string \<Rightarrow> int \<Rightarrow> thrown + bool" where
  "fitSimulation transform pack ws widgetSize cc =
     (case transform (map Widget ws) cc of Inl e \<Rightarrow> Inl e
      | Inr itemsBefore \<Rightarrow>
     (case pack itemsBefore cc of Inl e \<Rightarrow> Inl e
      | Inr rowsBefore \<Rightarrow>
     (let rowCountBefore = length rowsBefore;
          testWidgets = ws @ [newWidget ''temp'' widgetSize]
      in case transform (map Widget testWidgets) cc of Inl e \<Rightarrow> Inl e
      | Inr itemsAfter \<Rightarrow>
     (case pack itemsAfter cc of Inl e \<Rightarrow> Inl e
      | Inr rowsAfter \<Rightarrow> Inr (length rowsAfter = rowCountBefore)))))"

text \<open>
  \<^verbatim>\<open>canWidgetFitInSection\<close> over given composer and packer methods.  The section id of a
  zone may be absent (\<^verbatim>\<open>undefined\<close>), which equals no section's id.  \<^verbatim>\<open>getWidgetConfig\<close>
  returns an object for every size, so the test \<^verbatim>\<open>if (!config)\<close> never fires.
\<close>

definition canWidgetFitInSectionWith ::
  "(layout_item list \<Rightarrow> int \<Rightarrow> thrown + layout_item list) \<Rightarrow>
   (layout_item list \<Rightarrow> int \<Rightarrow> thrown + row list) \<Rightarrow>
   editor \<Rightarrow> string \<Rightarrow> string option \<Rightarrow> bool" where
  "canWidgetFitInSectionWith transform pack ed widgetSize sectionId =
     (if widgetSize = ''FILTER'' then False
      else case find (\<lambda>s. Some (section_id s) = sectionId) (sections ed) of
             None \<Rightarrow> True
           | Some (FilterGroupSection sid g) \<Rightarrow> True
           | Some (WidgetSection sid ttl ws) \<Rightarrow>
               if length ws = 0 then True
               else (let cc = getColCountFromWidth (offsetWidth ed)
                     in case fitSimulation transform pack ws widgetSize cc of
                          Inr same \<Rightarrow> same
                        | Inl e \<Rightarrow> True))"

text \<open>The editor's own methods never throw on widget lists.\<close>

definition canWidgetFitInSection :: "editor \<Rightarrow> string \<Rightarrow> string option \<Rightarrow> bool" where
  "canWidgetFitInSection =
     canWidgetFitInSectionWith
       (\<lambda>ws cc. Inr (transformRowBlocks ws cc)) (\<lambda>its cc. Inr (packRows its cc))"

section \<open>Drop-zone resolver\<close>

text \<open>
  A drop zone as \<^verbatim>\<open>getDropTarget\<close> builds it, its fields prefixed with \<open>zone\<close>.  The fields
  \<^verbatim>\<open>sectionId\<close> and \<^verbatim>\<open>widgetId\<close> are absent in some zones; the flags \<^verbatim>\<open>isRailDropZone\<close> and
  \<^verbatim>\<open>isInvalid\<close> are absent (falsy) unless set.  The type is one of the three strings \<^verbatim>\<open>'within-section'\<close>,
  \<^verbatim>\<open>'within-filter-group'\<close> and \<^verbatim>\<open>'between-sections'\<close>.
\<close>

datatype zoneType = WithinSection | WithinFilterGroup | BetweenSections

record dropZone =
  zone_type :: zoneType
  zone_sectionId :: "string option"
  zone_widgetId :: "string option"
  zone_position :: nat
  zone_top :: rat
  zone_bottom :: rat
  zone_left :: rat
  zone_right :: rat
  isRailDropZone :: bool
  isInvalid :: bool

text \<open>The rectangle of the canvas, from \<^verbatim>\<open>getBoundingClientRect\<close>.\<close>

record rect =
  rect_top :: rat
  rect_bottom :: rat
  rect_left :: rat
  rect_right :: rat

text \<open>The hit test of both final loops of \<^verbatim>\<open>getDropTarget\<close>.\<close>

definition containsPointer :: "rat \<Rightarrow> rat \<Rightarrow> dropZone \<Rightarrow> bool" where
  "containsPointer x y zone =
     (x \<ge> zone_left zone \<and> x \<le> zone_right zone \<and> y \<ge> zone_top zone \<and> y \<le> zone_bottom zone)"

text \<open>
  The loop \<^verbatim>\<open>for (let zone of dropZones)\<close> that sorts the zones into \<^verbatim>\<open>validZones\<close> and
  \<^verbatim>\<open>invalidZones\<close> for the size of the dragged widget, and flags the invalid ones.  The two
  branches of the source that run it (drag from the panel, move of a widget) differ in the
  size only.
\<close>

fun classifyZones ::
  "editor \<Rightarrow> string \<Rightarrow> dropZone list \<Rightarrow> dropZone list \<times> dropZone list
     \<Rightarrow> dropZone list \<times> dropZone list" where
  "classifyZones ed sz [] (validZones, invalidZones) = (validZones, invalidZones)"
| "classifyZones ed sz (zone # dropZones) (validZones, invalidZones) =
     (if zone_type zone = WithinSection \<or> zone_type zone = WithinFilterGroup then
        (let canFit = canWidgetFitInSection ed sz (zone_sectionId zone)
         in if canFit then classifyZones ed sz dropZones (validZones @ [zone], invalidZones)
            else classifyZones ed sz dropZones
                   (validZones, invalidZones @ [zone\<lparr>isInvalid := True\<rparr>]))
      else classifyZones ed sz dropZones (validZones @ [zone], invalidZones))"

text \<open>
  \<^verbatim>\<open>getDropTarget(x, y)\<close>.  The list \<^verbatim>\<open>dropZones\<close>, which the source builds from the
  rectangles of the document's elements, and the rectangle of the canvas are arguments.
  A string is truthy when it is not empty.
\<close>

definition getDropTarget ::
  "editor \<Rightarrow> rect \<Rightarrow> dropZone list \<Rightarrow> rat \<Rightarrow> rat \<Rightarrow> dropZone option" where
  "getDropTarget ed canvasRect dropZones x y =
     (if x < rect_left canvasRect \<or> x > rect_right canvasRect \<or>
         y < rect_top canvasRect \<or> y > rect_bottom canvasRect then None
      else
        (let (validZones, invalidZones) =
               (if isDraggingFromPanel ed \<and> draggedWidgetSize ed \<noteq> None
                    \<and> draggedWidgetSize ed \<noteq> Some []
                then classifyZones ed (the (draggedWidgetSize ed)) dropZones ([], [])
                else (case draggedWidget ed of
                        Some w \<Rightarrow> classifyZones ed (widget_size w) dropZones ([], [])
                      | None \<Rightarrow> (dropZones, [])))
         in case find (containsPointer x y) validZones of
              Some zone \<Rightarrow> Some zone
            | None \<Rightarrow>
                (case find (containsPointer x y) invalidZones of
                   Some zone \<Rightarrow> Some zone
                 | None \<Rightarrow> None)))"

section \<open>The layout functions over a store\<close>

subsection \<open>Store, composer\<close>

text \<open>
  The value model above cannot say that an array or an object is left as it was.  This
  section repeats the composer, the packer and \<^verbatim>\<open>layoutSection\<close> over an explicit store, in
  which every array and every object that these functions can write to has an address:
  arrays of widgets and RowBlocks (\<^verbatim>\<open>widgetsInOrder\<close>, \<^verbatim>\<open>items\<close>, \<^verbatim>\<open>section.widgets\<close>), cell
  objects, arrays of cells (\<^verbatim>\<open>currentRow\<close>, the \<^verbatim>\<open>cells\<close> of a row), section objects and filter
  groups.  A variable or field that refers to one of them holds its address, and
  \<open>limit\<close> is the next free address.  The only assignments to fields in the three
  functions are \<^verbatim>\<open>cell.span = ...\<close> and \<^verbatim>\<open>cell.distributeEqually = true\<close>, and the only
  arrays they change are changed by \<^verbatim>\<open>push\<close>, \<^verbatim>\<open>splice\<close> and \<^verbatim>\<open>reverse\<close>; widgets and RowBlocks
  are therefore the values that the arrays hold.  A row object \<^verbatim>\<open>{cells: currentRow}\<close> is the
  address of its array of cells, and the array \<^verbatim>\<open>rows\<close>, which is built and returned, is
  a list of such addresses.

  A section object holds the address of its array of widgets, or of its filter group, which
  holds the address of its array of widgets.
\<close>

datatype sectionObj =
  WidgetSectionObj string string nat
| FilterGroupSectionObj string nat

record filterGroupObj =
  obj_group_id :: string
  obj_group_title :: string
  obj_filters :: "chip list"
  obj_widgets :: nat
  obj_minItemWidthPx :: int
  obj_gapPx :: int
  obj_alignHeightsInRow :: bool

record store =
  itemArrays :: "nat \<Rightarrow> layout_item list"
  cellObjs :: "nat \<Rightarrow> cell"
  cellArrays :: "nat \<Rightarrow> nat list"
  sectionObjs :: "nat \<Rightarrow> sectionObj"
  groupObjs :: "nat \<Rightarrow> filterGroupObj"
  limit :: nat

text \<open>
  An array literal, \<^verbatim>\<open>[...xs]\<close> and \<^verbatim>\<open>filter\<close> build a new array and an object literal a
  new object: the value is stored at the next free address.
\<close>

definition allocItems :: "layout_item list \<Rightarrow> store \<Rightarrow> nat \<times> store" where
  "allocItems xs s =
     (limit s, s\<lparr>itemArrays := (itemArrays s)(limit s := xs), limit := limit s + 1\<rparr>)"

definition allocCell :: "cell \<Rightarrow> store \<Rightarrow> nat \<times> store" where
  "allocCell c s =
     (limit s, s\<lparr>cellObjs := (cellObjs s)(limit s := c), limit := limit s + 1\<rparr>)"

definition allocCells :: "nat list \<Rightarrow> store \<Rightarrow> nat \<times> store" where
  "allocCells cs s =
     (limit s, s\<lparr>cellArrays := (cellArrays s)(limit s := cs), limit := limit s + 1\<rparr>)"

text \<open>
  The writes: \<^verbatim>\<open>items.splice(...)\<close>, \<^verbatim>\<open>currentRow.push(cell)\<close>, \<^verbatim>\<open>cell.span = v\<close> and
  \<^verbatim>\<open>cell.distributeEqually = v\<close> change what is stored at the address they are given.
\<close>

definition spliceItems :: "nat \<Rightarrow> nat \<Rightarrow> nat \<Rightarrow> layout_item list \<Rightarrow> store \<Rightarrow> store" where
  "spliceItems a start deleteCount ins s =
     s\<lparr>itemArrays := (itemArrays s)(a := splice start deleteCount ins (itemArrays s a))\<rparr>"

definition pushCell :: "nat \<Rightarrow> nat \<Rightarrow> store \<Rightarrow> store" where
  "pushCell a c s = s\<lparr>cellArrays := (cellArrays s)(a := cellArrays s a @ [c])\<rparr>"

definition setSpan :: "nat \<Rightarrow> int \<Rightarrow> store \<Rightarrow> store" where
  "setSpan c v s = s\<lparr>cellObjs := (cellObjs s)(c := (cellObjs s c)\<lparr>span := v\<rparr>)\<rparr>"

definition setDistributeEqually :: "nat \<Rightarrow> bool \<Rightarrow> store \<Rightarrow> store" where
  "setDistributeEqually c v s =
     s\<lparr>cellObjs := (cellObjs s)(c := (cellObjs s c)\<lparr>distributeEqually := v\<rparr>)\<rparr>"

text \<open>
  The seed step on the array at the address \<open>items\<close>.  Both scans only read that array;
  the arrays \<^verbatim>\<open>capturedPrev\<close>, \<^verbatim>\<open>capturedNext\<close> and \<^verbatim>\<open>rb.rail\<close> are built during the step and
  shared with nothing before the RowBlock is stored, so they are lists.  Every \<^verbatim>\<open>splice\<close> is
  a write to the array at \<open>items\<close>.
\<close>

definition seedStep_st :: "store \<Rightarrow> nat \<Rightarrow> int \<Rightarrow> nat \<Rightarrow> widget \<Rightarrow> store \<times> nat" where
  "seedStep_st s items colCount i w =
     (let railTarget = minHeightRem w + toleranceRem;
          (startPrev, capturedPrev, railHeight, railCount) =
             capturePrev (itemArrays s items) colCount railTarget i [] 0 0;
          (s1, capturedNext) =
             (if length capturedPrev = 0 then
                (let (capturedNext, railHeight', railCount') =
                       captureNext (itemArrays s items) colCount railTarget (i + 1) []
                         railHeight railCount
                 in (if length capturedNext > 0
                       then spliceItems items (i + 1) (length capturedNext) [] s else s,
                     capturedNext))
              else (s, []));
          rb = \<lparr>main = w, rail = rev capturedPrev @ capturedNext,
                rowblock_id = ''rb-'' @ widget_id w\<rparr>
      in if length (rail rb) > 0 then
           (let (s2, i2) =
                  (if length capturedPrev > 0 then
                     (let countPrev = i - startPrev
                      in if countPrev > 0
                           then (spliceItems items startPrev countPrev [] s1, startPrev)
                           else (s1, i))
                   else (s1, i))
            in (spliceItems items i2 1 [RowBlock rb] s2, i2))
         else (s1, i))"

lemma seedStep_st_items:
  "itemArrays (fst (seedStep_st s items colCount i w)) items
     = fst (seedStep (itemArrays s items) colCount i w) \<and>
   snd (seedStep_st s items colCount i w) = snd (seedStep (itemArrays s items) colCount i w)"
  by (simp add: seedStep_st_def seedStep_def spliceItems_def Let_def split: prod.splits)

function rowBlockLoop_st :: "store \<Rightarrow> nat \<Rightarrow> int \<Rightarrow> nat \<Rightarrow> store" where
  "rowBlockLoop_st s items colCount i =
     (if i < length (itemArrays s items) then
        (case itemArrays s items ! i of
           RowBlock rb \<Rightarrow> rowBlockLoop_st s items colCount (i + 1)
         | Widget w \<Rightarrow>
             if effectiveSpan w colCount \<noteq> 3 then rowBlockLoop_st s items colCount (i + 1)
             else (case seedStep_st s items colCount i w of
                     (s', i') \<Rightarrow> rowBlockLoop_st s' items colCount (i' + 1)))
      else s)"
  by pat_completeness auto
termination
proof (relation "measure (\<lambda>(s, items, colCount, i). length (itemArrays s items) - i)")
  fix s :: store and items :: nat and colCount :: int and i :: nat and w x y
  assume il: "i < length (itemArrays s items)" and st: "(x, y) = seedStep_st s items colCount i w"
  obtain xs' i' where p: "seedStep (itemArrays s items) colCount i w = (xs', i')"
    by (cases "seedStep (itemArrays s items) colCount i w") auto
  from seedStep_st_items[of s items colCount i w] st[symmetric] p
  have "itemArrays x items = xs'" "y = i'" by simp_all
  with seedStep_length[OF il p]
  have "y < length (itemArrays x items) \<and> length (itemArrays x items) - y \<le> length (itemArrays s items) - i"
    by simp
  then show "((x, items, colCount, y + 1), s, items, colCount, i)
               \<in> measure (\<lambda>(s, items, colCount, i). length (itemArrays s items) - i)"
    by auto
qed auto

declare rowBlockLoop_st.simps [simp del]

text \<open>
  \<^verbatim>\<open>transformRowBlocks\<close>: the copy \<^verbatim>\<open>[...widgetsInOrder]\<close> is a new array, whose address is
  returned, with the store.
\<close>

definition transformRowBlocks_st :: "store \<Rightarrow> nat \<Rightarrow> int \<Rightarrow> nat \<times> store" where
  "transformRowBlocks_st s widgetsInOrder colCount =
     (if colCount \<noteq> 4 then allocItems (itemArrays s widgetsInOrder) s
      else (case allocItems (itemArrays s widgetsInOrder) s of
              (items, s1) \<Rightarrow> (items, rowBlockLoop_st s1 items colCount 0)))"

subsection \<open>Packer and section layout\<close>

text \<open>
  \<^verbatim>\<open>currentRow.forEach(cell => { cell.distributeEqually = true })\<close> and
  \<^verbatim>\<open>expandableWidgets.forEach((cell, idx) => ...)\<close>: one write per element, to the cell
  object the element refers to.
\<close>

fun markAll :: "nat list \<Rightarrow> store \<Rightarrow> store" where
  "markAll [] s = s"
| "markAll (c # cs) s = markAll cs (setDistributeEqually c True s)"

fun expandEach :: "int \<Rightarrow> int \<Rightarrow> int \<Rightarrow> nat \<Rightarrow> nat list \<Rightarrow> store \<Rightarrow> store" where
  "expandEach colCount extraPerWidget leftover idx [] s = s"
| "expandEach colCount extraPerWidget leftover idx (c # cs) s =
     (let extra = extraPerWidget + (if int idx < leftover then 1 else 0)
      in expandEach colCount extraPerWidget leftover (Suc idx) cs
           (setSpan c (min colCount (span (cellObjs s c) + extra)) s))"

text \<open>
  The closure \<^verbatim>\<open>flush\<close>.  \<^verbatim>\<open>expandableWidgets\<close> is a new array that holds some of the
  references of \<^verbatim>\<open>currentRow\<close>; \<^verbatim>\<open>rows.push({cells: currentRow})\<close> keeps the address of the
  array, and \<^verbatim>\<open>currentRow = []\<close> is a new array.
\<close>

definition flush_st ::
  "int \<Rightarrow> store \<times> nat list \<times> nat \<times> int \<Rightarrow> store \<times> nat list \<times> nat \<times> int" where
  "flush_st colCount st =
     (case st of (s, rows, currentRow, used) \<Rightarrow>
        if length (cellArrays s currentRow) = 0 then (s, rows, currentRow, used)
        else
          (let remaining = colCount - used;
               s1 =
                 (if remaining > 0 then
                    (let expandableWidgets =
                           filter (\<lambda>c. \<not> isRowBlock (item (cellObjs s c))) (cellArrays s currentRow)
                     in if length expandableWidgets > 0 then
                          (let allAreMinSpan =
                                 list_all (\<lambda>c. span (cellObjs s c) = 1) expandableWidgets
                           in if allAreMinSpan \<and> remaining < int (length expandableWidgets)
                              then markAll (cellArrays s currentRow) s
                              else (let extraPerWidget = remaining div int (length expandableWidgets);
                                        leftover = remaining mod int (length expandableWidgets)
                                    in expandEach colCount extraPerWidget leftover 0
                                         expandableWidgets s))
                        else s)
                  else s)
           in case allocCells [] s1 of
                (currentRow', s2) \<Rightarrow> (s2, rows @ [currentRow], currentRow', 0)))"

definition packStep_st ::
  "int \<Rightarrow> layout_item \<Rightarrow> store \<times> nat list \<times> nat \<times> int \<Rightarrow> store \<times> nat list \<times> nat \<times> int" where
  "packStep_st colCount it st =
     (let span = itemSpan it colCount
      in if span \<ge> colCount then
           (case flush_st colCount st of (s1, rows, currentRow, used) \<Rightarrow>
              (case allocCell \<lparr>item = it, span = colCount, distributeEqually = False\<rparr> s1 of
                 (c, s2) \<Rightarrow>
                   (case allocCells [c] s2 of
                      (r, s3) \<Rightarrow> (s3, rows @ [r], currentRow, used))))
         else
           (case (if snd (snd (snd st)) + span > colCount then flush_st colCount st else st) of
              (s1, rows, currentRow, used) \<Rightarrow>
                (case allocCell \<lparr>item = it, span = span, distributeEqually = False\<rparr> s1 of
                   (c, s2) \<Rightarrow> (pushCell currentRow c s2, rows, currentRow, used + span))))"

lemma markAll_itemArrays: "itemArrays (markAll cs s) = itemArrays s"
  by (induction cs arbitrary: s) (simp_all add: setDistributeEqually_def)

lemma expandEach_itemArrays: "itemArrays (expandEach cc q lo idx cs s) = itemArrays s"
  by (induction cs arbitrary: s idx) (simp_all add: setSpan_def Let_def)

lemma flush_st_itemArrays: "itemArrays (fst (flush_st cc st)) = itemArrays (fst st)"
  by (cases st)
     (simp add: flush_st_def Let_def allocCells_def markAll_itemArrays expandEach_itemArrays)

lemma packStep_st_itemArrays: "itemArrays (fst (packStep_st cc it st)) = itemArrays (fst st)"
proof -
  obtain s rows cr used where st: "st = (s, rows, cr, used)" by (cases st) auto
  obtain s1 rows1 cr1 used1 where f: "flush_st cc st = (s1, rows1, cr1, used1)"
    by (cases "flush_st cc st") auto
  have "itemArrays s1 = itemArrays s" using flush_st_itemArrays[of cc st] f st by simp
  then show ?thesis using st f
    by (simp add: packStep_st_def Let_def allocCell_def allocCells_def pushCell_def)
qed

text \<open>The loop \<^verbatim>\<open>for (const item of items)\<close> reads the array at \<open>items\<close> element by element.\<close>

function packLoop_st ::
  "int \<Rightarrow> nat \<Rightarrow> nat \<Rightarrow> store \<times> nat list \<times> nat \<times> int \<Rightarrow> store \<times> nat list \<times> nat \<times> int" where
  "packLoop_st colCount items k st =
     (if k < length (itemArrays (fst st) items)
      then packLoop_st colCount items (k + 1)
             (packStep_st colCount (itemArrays (fst st) items ! k) st)
      else st)"
  by pat_completeness auto
termination
  by (relation "measure (\<lambda>(colCount, items, k, st). length (itemArrays (fst st) items) - k)")
     (auto simp: packStep_st_itemArrays)

declare packLoop_st.simps [simp del]

definition packRows_st :: "store \<Rightarrow> nat \<Rightarrow> int \<Rightarrow> nat list \<times> store" where
  "packRows_st s items colCount =
     (case allocCells [] s of
        (currentRow, s0) \<Rightarrow>
          (case flush_st colCount (packLoop_st colCount items 0 (s0, [], currentRow, 0)) of
             (s', rows, currentRow', used) \<Rightarrow> (rows, s')))"

record layoutObj =
  obj_type :: string
  obj_colCount :: int
  obj_rows :: "nat list"
  obj_group :: "nat option"
  obj_containerWidth :: "rat option"

definition layoutSection_st :: "store \<Rightarrow> nat \<Rightarrow> rat \<Rightarrow> layoutObj \<times> store" where
  "layoutSection_st s sec width =
     (let cc = getColCountFromWidth width
      in case sectionObjs s sec of
           FilterGroupSectionObj sid g \<Rightarrow>
             (case transformRowBlocks_st s (obj_widgets (groupObjs s g)) cc of
                (items, s1) \<Rightarrow>
                  (case packRows_st s1 items cc of
                     (rs, s2) \<Rightarrow>
                       (\<lparr>obj_type = ''filter-group'', obj_colCount = cc, obj_rows = rs,
                         obj_group = Some g, obj_containerWidth = Some width\<rparr>, s2)))
         | WidgetSectionObj sid ttl ws \<Rightarrow>
             (case transformRowBlocks_st s ws cc of
                (items, s1) \<Rightarrow>
                  (case packRows_st s1 items cc of
                     (rs, s2) \<Rightarrow>
                       (\<lparr>obj_type = ''widget'', obj_colCount = cc, obj_rows = rs,
                         obj_group = None, obj_containerWidth = None\<rparr>, s2))))"

section \<open>Properties of the column resolver\<close>

text \<open>
  Claim C8.  The column resolver is monotone: a wider container never gets fewer columns.
  Its values are fixed by the breakpoints: a width of at least 1200 gives 4 columns, of at
  least 900 gives 3, of at least 600 gives 2, and every smaller width gives 1.
\<close>

theorem getColCountFromWidth_monotone:
  "(w1 < w2 \<longrightarrow> getColCountFromWidth w1 \<le> getColCountFromWidth w2) \<and>
   (w \<ge> 1200 \<longrightarrow> getColCountFromWidth w = 4) \<and>
   (900 \<le> w \<and> w < 1200 \<longrightarrow> getColCountFromWidth w = 3) \<and>
   (600 \<le> w \<and> w < 900 \<longrightarrow> getColCountFromWidth w = 2) \<and>
   (w < 600 \<longrightarrow> getColCountFromWidth w = 1)"
proof -
  have range: "getColCountFromWidth w1 \<in> {1, 2, 3, 4}"
    by (simp add: getColCountFromWidth_def)
  have mono: "w1 < w2 \<longrightarrow> getColCountFromWidth w1 \<le> getColCountFromWidth w2"
  proof
    assume lt: "w1 < w2"
    consider "w2 \<ge> 1200" | "900 \<le> w2" "w2 < 1200" | "600 \<le> w2" "w2 < 900" | "w2 < 600"
      by linarith
    then show "getColCountFromWidth w1 \<le> getColCountFromWidth w2"
    proof cases
      case 1
      then show ?thesis using range by (auto simp: getColCountFromWidth_def)
    next
      case 2
      with lt have "w1 < 1200" by simp
      with 2 show ?thesis by (simp add: getColCountFromWidth_def)
    next
      case 3
      with lt have "w1 < 900" by simp
      with 3 show ?thesis by (simp add: getColCountFromWidth_def)
    next
      case 4
      with lt have "w1 < 600" by simp
      with 4 show ?thesis by (simp add: getColCountFromWidth_def)
    qed
  qed
  have breakpoints:
    "w \<ge> 1200 \<longrightarrow> getColCountFromWidth w = 4"
    "900 \<le> w \<and> w < 1200 \<longrightarrow> getColCountFromWidth w = 3"
    "600 \<le> w \<and> w < 900 \<longrightarrow> getColCountFromWidth w = 2"
    "w < 600 \<longrightarrow> getColCountFromWidth w = 1"
    by (simp_all add: getColCountFromWidth_def)
  from mono breakpoints show ?thesis by blast
qed

theorem getColCountFromWidth_monotone_witness:
  "(899 :: rat) < 900 \<and> getColCountFromWidth 899 \<le> getColCountFromWidth 900 \<and>
   getColCountFromWidth 899 = 2 \<and> getColCountFromWidth 900 = 3 \<and>
   getColCountFromWidth 1200 = 4 \<and> getColCountFromWidth (1199 + 1 / 2) = 3 \<and>
   getColCountFromWidth 0 = 1"
  using getColCountFromWidth_monotone [of 899 900 899]
    getColCountFromWidth_monotone [of 899 900 900]
    getColCountFromWidth_monotone [of 899 900 1200]
    getColCountFromWidth_monotone [of 899 900 "1199 + 1 / 2"]
    getColCountFromWidth_monotone [of 899 900 0]
  by simp

section \<open>The composer and the packer on three S widgets and one L widget\<close>

text \<open>Unfolding rules that evaluate the composer and the packer on explicit lists.\<close>

lemmas composer_eval =
  transformRowBlocks_def rowBlockLoop.simps captureNext.simps seedStep_def newWidget_def
  getWidgetConfig_def effectiveSpan_def canTake_def maxRailItems_def toleranceRem_def
  vGapRem_def splice_def Let_def

lemmas packer_eval =
  packRows_def packStep_def flush_def flushCells_def itemSpan_def effectiveSpan_def
  newWidget_def getWidgetConfig_def Let_def

lemma scenario1_composer:
  "transformRowBlocks
     (map Widget [newWidget a ''S'', newWidget b ''S'', newWidget c ''S'', newWidget d ''L'']) 4
   = [Widget (newWidget a ''S''),
      RowBlock \<lparr>main = newWidget d ''L'', rail = [newWidget b ''S'', newWidget c ''S''],
                rowblock_id = ''rb-'' @ d\<rparr>]"
  "transformRowBlocks
     (map Widget [newWidget a ''S'', newWidget b ''S'', newWidget d ''L'', newWidget c ''S'']) 4
   = [RowBlock \<lparr>main = newWidget d ''L'', rail = [newWidget a ''S'', newWidget b ''S''],
                rowblock_id = ''rb-'' @ d\<rparr>,
      Widget (newWidget c ''S'')]"
  "transformRowBlocks
     (map Widget [newWidget a ''S'', newWidget d ''L'', newWidget b ''S'', newWidget c ''S'']) 4
   = [RowBlock \<lparr>main = newWidget d ''L'', rail = [newWidget a ''S''],
                rowblock_id = ''rb-'' @ d\<rparr>,
      Widget (newWidget b ''S''), Widget (newWidget c ''S'')]"
  "transformRowBlocks
     (map Widget [newWidget d ''L'', newWidget a ''S'', newWidget b ''S'', newWidget c ''S'']) 4
   = [RowBlock \<lparr>main = newWidget d ''L'', rail = [newWidget a ''S'', newWidget b ''S''],
                rowblock_id = ''rb-'' @ d\<rparr>,
      Widget (newWidget c ''S'')]"
  by (simp_all add: composer_eval)

lemma scenario1_packer:
  "packRows [Widget (newWidget a ''S''), RowBlock rb] 4
   = [\<lparr>cells = [\<lparr>item = Widget (newWidget a ''S''), span = 4, distributeEqually = False\<rparr>]\<rparr>,
      \<lparr>cells = [\<lparr>item = RowBlock rb, span = 4, distributeEqually = False\<rparr>]\<rparr>]"
  "packRows [RowBlock rb, Widget (newWidget c ''S'')] 4
   = [\<lparr>cells = [\<lparr>item = RowBlock rb, span = 4, distributeEqually = False\<rparr>]\<rparr>,
      \<lparr>cells = [\<lparr>item = Widget (newWidget c ''S''), span = 4, distributeEqually = False\<rparr>]\<rparr>]"
  "packRows [RowBlock rb, Widget (newWidget b ''S''), Widget (newWidget c ''S'')] 4
   = [\<lparr>cells = [\<lparr>item = RowBlock rb, span = 4, distributeEqually = False\<rparr>]\<rparr>,
      \<lparr>cells = [\<lparr>item = Widget (newWidget b ''S''), span = 2, distributeEqually = False\<rparr>,
                \<lparr>item = Widget (newWidget c ''S''), span = 2, distributeEqually = False\<rparr>]\<rparr>]"
  by (simp_all add: packer_eval)

text \<open>
  Claim C2, as the specification states it, fails.  For three widgets of size S and one of
  size L at four columns, whatever the position of the L widget, the packer does not emit
  a single row: the rail target is 32 + 2 = 34 rem, two S widgets take 16 + 0.75 + 16 =
  32.75 rem and a third would take 49.5 rem, so one S widget at least stays outside the
  RowBlock and gets a row of its own.
\<close>

theorem scenario1_single_row_counterexample:
  "length (packRows (transformRowBlocks
     (map Widget [newWidget ''w_0'' ''S'', newWidget ''w_1'' ''S'', newWidget ''w_2'' ''S'', newWidget ''w_3'' ''L'']) 4) 4) \<noteq> 1 \<and>
   length (packRows (transformRowBlocks
     (map Widget [newWidget ''w_0'' ''S'', newWidget ''w_1'' ''S'', newWidget ''w_3'' ''L'', newWidget ''w_2'' ''S'']) 4) 4) \<noteq> 1 \<and>
   length (packRows (transformRowBlocks
     (map Widget [newWidget ''w_0'' ''S'', newWidget ''w_3'' ''L'', newWidget ''w_1'' ''S'', newWidget ''w_2'' ''S'']) 4) 4) \<noteq> 1 \<and>
   length (packRows (transformRowBlocks
     (map Widget [newWidget ''w_3'' ''L'', newWidget ''w_0'' ''S'', newWidget ''w_1'' ''S'', newWidget ''w_2'' ''S'']) 4) 4) \<noteq> 1"
  unfolding scenario1_composer scenario1_packer by simp

text \<open>
  Claim C2, amended.  For three widgets of size S (minColSpan 1, minHeightRem 16) and one
  of size L (minColSpan 3, minHeightRem 32) at four columns, the composer produces exactly
  one RowBlock, whose main widget is the L widget.  Its rail holds the two S widgets next
  to the seed that fit within 34 rem (the two before it, or the two after it when none
  precedes it), and only the one S widget before the seed in the order S, L, S, S, since
  a backward capture excludes the forward one.  The packer then emits two rows, each of
  full width 4: the RowBlock alone with span 4, and the S widgets left over, widened to
  span 4 (one widget) or to spans 2 and 2 (two widgets).
\<close>

theorem scenario1_layout:
  "transformRowBlocks
     (map Widget [newWidget a ''S'', newWidget b ''S'', newWidget c ''S'', newWidget d ''L'']) 4
   = [Widget (newWidget a ''S''),
      RowBlock \<lparr>main = newWidget d ''L'', rail = [newWidget b ''S'', newWidget c ''S''],
                rowblock_id = ''rb-'' @ d\<rparr>] \<and>
   packRows
     [Widget (newWidget a ''S''),
      RowBlock \<lparr>main = newWidget d ''L'', rail = [newWidget b ''S'', newWidget c ''S''],
                rowblock_id = ''rb-'' @ d\<rparr>] 4
   = [\<lparr>cells = [\<lparr>item = Widget (newWidget a ''S''), span = 4, distributeEqually = False\<rparr>]\<rparr>,
      \<lparr>cells = [\<lparr>item = RowBlock \<lparr>main = newWidget d ''L'', rail = [newWidget b ''S'', newWidget c ''S''],
                rowblock_id = ''rb-'' @ d\<rparr>, span = 4, distributeEqually = False\<rparr>]\<rparr>] \<and>
   transformRowBlocks
     (map Widget [newWidget a ''S'', newWidget b ''S'', newWidget d ''L'', newWidget c ''S'']) 4
   = [RowBlock \<lparr>main = newWidget d ''L'', rail = [newWidget a ''S'', newWidget b ''S''],
                rowblock_id = ''rb-'' @ d\<rparr>,
      Widget (newWidget c ''S'')] \<and>
   packRows
     [RowBlock \<lparr>main = newWidget d ''L'', rail = [newWidget a ''S'', newWidget b ''S''],
                rowblock_id = ''rb-'' @ d\<rparr>,
      Widget (newWidget c ''S'')] 4
   = [\<lparr>cells = [\<lparr>item = RowBlock \<lparr>main = newWidget d ''L'', rail = [newWidget a ''S'', newWidget b ''S''],
                rowblock_id = ''rb-'' @ d\<rparr>, span = 4, distributeEqually = False\<rparr>]\<rparr>,
      \<lparr>cells = [\<lparr>item = Widget (newWidget c ''S''), span = 4, distributeEqually = False\<rparr>]\<rparr>] \<and>
   transformRowBlocks
     (map Widget [newWidget a ''S'', newWidget d ''L'', newWidget b ''S'', newWidget c ''S'']) 4
   = [RowBlock \<lparr>main = newWidget d ''L'', rail = [newWidget a ''S''],
                rowblock_id = ''rb-'' @ d\<rparr>,
      Widget (newWidget b ''S''),
      Widget (newWidget c ''S'')] \<and>
   packRows
     [RowBlock \<lparr>main = newWidget d ''L'', rail = [newWidget a ''S''],
                rowblock_id = ''rb-'' @ d\<rparr>,
      Widget (newWidget b ''S''),
      Widget (newWidget c ''S'')] 4
   = [\<lparr>cells = [\<lparr>item = RowBlock \<lparr>main = newWidget d ''L'', rail = [newWidget a ''S''],
                rowblock_id = ''rb-'' @ d\<rparr>, span = 4, distributeEqually = False\<rparr>]\<rparr>,
      \<lparr>cells = [\<lparr>item = Widget (newWidget b ''S''), span = 2, distributeEqually = False\<rparr>,
                \<lparr>item = Widget (newWidget c ''S''), span = 2, distributeEqually = False\<rparr>]\<rparr>] \<and>
   transformRowBlocks
     (map Widget [newWidget d ''L'', newWidget a ''S'', newWidget b ''S'', newWidget c ''S'']) 4
   = [RowBlock \<lparr>main = newWidget d ''L'', rail = [newWidget a ''S'', newWidget b ''S''],
                rowblock_id = ''rb-'' @ d\<rparr>,
      Widget (newWidget c ''S'')] \<and>
   packRows
     [RowBlock \<lparr>main = newWidget d ''L'', rail = [newWidget a ''S'', newWidget b ''S''],
                rowblock_id = ''rb-'' @ d\<rparr>,
      Widget (newWidget c ''S'')] 4
   = [\<lparr>cells = [\<lparr>item = RowBlock \<lparr>main = newWidget d ''L'', rail = [newWidget a ''S'', newWidget b ''S''],
                rowblock_id = ''rb-'' @ d\<rparr>, span = 4, distributeEqually = False\<rparr>]\<rparr>,
      \<lparr>cells = [\<lparr>item = Widget (newWidget c ''S''), span = 4, distributeEqually = False\<rparr>]\<rparr>]"
  unfolding scenario1_composer scenario1_packer by simp

section \<open>Properties of the packer\<close>

subsection \<open>Distribution of the remaining columns\<close>

text \<open>
  The index that \<^verbatim>\<open>forEach\<close> passes for the cell at position \<open>j\<close> of the row: the number of
  expandable cells before it.
\<close>

definition expandableIndex :: "cell list \<Rightarrow> nat \<Rightarrow> nat" where
  "expandableIndex currentRow j = length (filter (\<lambda>c. \<not> isRowBlock (item c)) (take j currentRow))"

lemma expandCells_length: "length (expandCells colCount q r idx cs) = length cs"
  by (induction cs arbitrary: idx) (simp_all add: Let_def)

lemma expandCells_nth:
  "j < length cs \<Longrightarrow>
     expandCells colCount q r idx cs ! j =
       (if isRowBlock (item (cs ! j)) then cs ! j
        else (cs ! j)\<lparr>span := min colCount (span (cs ! j) + q +
                (if int (idx + expandableIndex cs j) < r then 1 else 0))\<rparr>)"
proof (induction cs arbitrary: idx j)
  case Nil
  then show ?case by simp
next
  case (Cons c cs)
  show ?case
  proof (cases j)
    case 0
    then show ?thesis by (simp add: Let_def expandableIndex_def)
  next
    case (Suc j')
    with Cons.prems have j': "j' < length cs" by simp
    show ?thesis
    proof (cases "isRowBlock (item c)")
      case True
      then show ?thesis using Suc Cons.IH[OF j', of idx] by (simp add: expandableIndex_def)
    next
      case False
      then show ?thesis using Suc Cons.IH[OF j', of "Suc idx"]
        by (simp add: expandableIndex_def Let_def)
    qed
  qed
qed

text \<open>
  Claim C4.  Let a non-empty row be flushed with \<open>remaining = colCount - used > 0\<close>, and let
  \<open>n\<close> be the number of its expandable cells, those that hold no RowBlock.  If every
  expandable cell has span 1 and \<open>remaining < n\<close>, no span changes and every cell of the
  row, a RowBlock cell included, is marked \<^verbatim>\<open>distributeEqually\<close>.  In every other case with
  \<open>n > 0\<close>, an expandable cell gets \<open>remaining div n\<close> more columns, and one more when its
  index among the expandable cells, in row order, is below \<open>remaining mod n\<close>; the new span
  is capped at \<open>colCount\<close>; RowBlock cells, items and flags stay as they are.
\<close>

theorem flush_distribution:
  assumes row: "currentRow \<noteq> []"
    and rem: "remaining = colCount - used" "remaining > 0"
    and cnt: "n = length (filter (\<lambda>c. \<not> isRowBlock (item c)) currentRow)"
  shows "\<exists>res. flush colCount (rows, currentRow, used) = (rows @ [\<lparr>cells = res\<rparr>], [], 0) \<and>
           length res = length currentRow \<and>
           ((\<forall>c \<in> set currentRow. \<not> isRowBlock (item c) \<longrightarrow> span c = 1) \<and> remaining < int n \<longrightarrow>
              (\<forall>j < length currentRow.
                 res ! j = (currentRow ! j)\<lparr>distributeEqually := True\<rparr>)) \<and>
           (n > 0 \<and> \<not> ((\<forall>c \<in> set currentRow. \<not> isRowBlock (item c) \<longrightarrow> span c = 1) \<and> remaining < int n) \<longrightarrow>
              (\<forall>j < length currentRow.
                 res ! j =
                   (if isRowBlock (item (currentRow ! j)) then currentRow ! j
                    else (currentRow ! j)\<lparr>span := min colCount (span (currentRow ! j)
                           + remaining div int n
                           + (if int (expandableIndex currentRow j) < remaining mod int n
                              then 1 else 0))\<rparr>)))"
proof -
  let ?res = "flushCells colCount currentRow used"
  have all: "list_all (\<lambda>c. span c = 1) (filter (\<lambda>c. \<not> isRowBlock (item c)) currentRow)
               = (\<forall>c \<in> set currentRow. \<not> isRowBlock (item c) \<longrightarrow> span c = 1)"
    by (auto simp: list_all_iff)
  have f: "flush colCount (rows, currentRow, used) = (rows @ [\<lparr>cells = ?res\<rparr>], [], 0)"
    using row by (simp add: flush_def)
  have len: "length ?res = length currentRow"
    by (simp add: flushCells_def Let_def expandCells_length)
  have tie: "(\<forall>c \<in> set currentRow. \<not> isRowBlock (item c) \<longrightarrow> span c = 1) \<and> remaining < int n \<longrightarrow>
              (\<forall>j < length currentRow. ?res ! j = (currentRow ! j)\<lparr>distributeEqually := True\<rparr>)"
  proof (intro impI allI)
    fix j
    assume a: "(\<forall>c \<in> set currentRow. \<not> isRowBlock (item c) \<longrightarrow> span c = 1) \<and> remaining < int n"
      and j: "j < length currentRow"
    from a rem have npos: "n > 0" by simp
    have "?res = map (\<lambda>c. c\<lparr>distributeEqually := True\<rparr>) currentRow"
      using a rem cnt npos all by (simp add: flushCells_def Let_def)
    then show "?res ! j = (currentRow ! j)\<lparr>distributeEqually := True\<rparr>" using j by simp
  qed
  have dist: "n > 0 \<and> \<not> ((\<forall>c \<in> set currentRow. \<not> isRowBlock (item c) \<longrightarrow> span c = 1) \<and> remaining < int n) \<longrightarrow>
              (\<forall>j < length currentRow.
                 ?res ! j =
                   (if isRowBlock (item (currentRow ! j)) then currentRow ! j
                    else (currentRow ! j)\<lparr>span := min colCount (span (currentRow ! j)
                           + remaining div int n
                           + (if int (expandableIndex currentRow j) < remaining mod int n
                              then 1 else 0))\<rparr>))"
  proof (intro impI allI)
    fix j
    assume a: "n > 0 \<and> \<not> ((\<forall>c \<in> set currentRow. \<not> isRowBlock (item c) \<longrightarrow> span c = 1) \<and> remaining < int n)"
      and j: "j < length currentRow"
    have "?res = expandCells colCount (remaining div int n) (remaining mod int n) 0 currentRow"
      using a rem cnt all by (auto simp add: flushCells_def Let_def)
    then show "?res ! j =
                   (if isRowBlock (item (currentRow ! j)) then currentRow ! j
                    else (currentRow ! j)\<lparr>span := min colCount (span (currentRow ! j)
                           + remaining div int n
                           + (if int (expandableIndex currentRow j) < remaining mod int n
                              then 1 else 0))\<rparr>)"
      using expandCells_nth[OF j, of colCount "remaining div int n" "remaining mod int n" 0] by simp
  qed
  from f len tie dist show ?thesis by blast
qed

theorem flush_distribution_witness:
  "(\<exists>res. flush 4 ([], [\<lparr>item = Widget (newWidget ''w_0'' ''XS''), span = 1, distributeEqually = False\<rparr>,
                        \<lparr>item = Widget (newWidget ''w_1'' ''XS''), span = 1, distributeEqually = False\<rparr>,
                        \<lparr>item = Widget (newWidget ''w_2'' ''XS''), span = 1, distributeEqually = False\<rparr>], 3)
            = ([\<lparr>cells = res\<rparr>], [], 0) \<and> length res = 3 \<and>
          res ! 0 = \<lparr>item = Widget (newWidget ''w_0'' ''XS''), span = 1, distributeEqually = True\<rparr> \<and>
          res ! 1 = \<lparr>item = Widget (newWidget ''w_1'' ''XS''), span = 1, distributeEqually = True\<rparr> \<and>
          res ! 2 = \<lparr>item = Widget (newWidget ''w_2'' ''XS''), span = 1, distributeEqually = True\<rparr>) \<and>
   (\<exists>res. flush 4 ([], [\<lparr>item = Widget (newWidget ''w_0'' ''S''), span = 1, distributeEqually = False\<rparr>,
                        \<lparr>item = Widget (newWidget ''w_1'' ''M''), span = 2, distributeEqually = False\<rparr>], 3)
            = ([\<lparr>cells = res\<rparr>], [], 0) \<and> length res = 2 \<and>
          res ! 0 = \<lparr>item = Widget (newWidget ''w_0'' ''S''), span = 2, distributeEqually = False\<rparr> \<and>
          res ! 1 = \<lparr>item = Widget (newWidget ''w_1'' ''M''), span = 2, distributeEqually = False\<rparr>)"
proof -
  let ?r1 = "[\<lparr>item = Widget (newWidget ''w_0'' ''XS''), span = 1, distributeEqually = False\<rparr>,
              \<lparr>item = Widget (newWidget ''w_1'' ''XS''), span = 1, distributeEqually = False\<rparr>,
              \<lparr>item = Widget (newWidget ''w_2'' ''XS''), span = 1, distributeEqually = False\<rparr>]"
  let ?r2 = "[\<lparr>item = Widget (newWidget ''w_0'' ''S''), span = 1, distributeEqually = False\<rparr>,
              \<lparr>item = Widget (newWidget ''w_1'' ''M''), span = 2, distributeEqually = False\<rparr>]"
  obtain res1 where a: "flush 4 ([], ?r1, 3) = ([] @ [\<lparr>cells = res1\<rparr>], [], 0)" "length res1 = length ?r1"
    "\<forall>j < length ?r1. res1 ! j = (?r1 ! j)\<lparr>distributeEqually := True\<rparr>"
    using flush_distribution [of ?r1 1 4 3 3 "[]"] by auto
  have a': "res1 ! 0 = (?r1 ! 0)\<lparr>distributeEqually := True\<rparr>"
    "res1 ! 1 = (?r1 ! 1)\<lparr>distributeEqually := True\<rparr>"
    "res1 ! 2 = (?r1 ! 2)\<lparr>distributeEqually := True\<rparr>"
    using a(3) by simp_all
  obtain res2 where b: "flush 4 ([], ?r2, 3) = ([] @ [\<lparr>cells = res2\<rparr>], [], 0)" "length res2 = length ?r2"
    "\<forall>j < length ?r2. res2 ! j =
        (if isRowBlock (item (?r2 ! j)) then ?r2 ! j
         else (?r2 ! j)\<lparr>span := min 4 (span (?r2 ! j) + 1 div int 2
                 + (if int (expandableIndex ?r2 j) < 1 mod int 2 then 1 else 0))\<rparr>)"
    using flush_distribution [of ?r2 1 4 3 2 "[]"] by auto
  have b': "res2 ! 0 = \<lparr>item = Widget (newWidget ''w_0'' ''S''), span = 2, distributeEqually = False\<rparr>"
    "res2 ! 1 = \<lparr>item = Widget (newWidget ''w_1'' ''M''), span = 2, distributeEqually = False\<rparr>"
    using b(3) by (simp_all add: expandableIndex_def)
  show ?thesis using a(1,2) a' b(1,2) b' by simp
qed

subsection \<open>Row saturation\<close>

lemma expandCells_sum:
  assumes "\<forall>c \<in> set cs. \<not> isRowBlock (item c) \<and> span c + q + (if 0 < r then 1 else 0) \<le> cc"
  shows "sum_list (map span (expandCells cc q r idx cs)) =
           sum_list (map span cs) + q * int (length cs) + max 0 (min (int (length cs)) (r - int idx))"
  using assms
proof (induction cs arbitrary: idx)
  case Nil
  then show ?case by simp
next
  case (Cons c cs)
  from Cons.prems have c: "\<not> isRowBlock (item c)" "span c + q + (if 0 < r then 1 else 0) \<le> cc"
    and rest: "\<forall>c \<in> set cs. \<not> isRowBlock (item c) \<and> span c + q + (if 0 < r then 1 else 0) \<le> cc"
    by simp_all
  have cap: "min cc (span c + (q + (if int idx < r then 1 else 0))) = span c + q + (if int idx < r then 1 else 0)"
    using c(2) by (auto split: if_splits)
  have g: "(if int idx < r then 1 else 0) + max 0 (min (int (length cs)) (r - int (Suc idx)))
             = max 0 (min (int (length (c # cs))) (r - int idx))"
    by (auto simp: min_def max_def)
  show ?case
    using c(1) cap g Cons.IH[OF rest, of "Suc idx"]
    by (simp add: Let_def algebra_simps)
qed

text \<open>
  A row is saturated when, unless one of its cells is marked \<^verbatim>\<open>distributeEqually\<close>, its
  spans add up to the column count.  The invariant of the packer's loop: \<^verbatim>\<open>used\<close> is the sum
  of the spans in \<^verbatim>\<open>currentRow\<close> and does not exceed the column count, \<^verbatim>\<open>currentRow\<close> holds
  no RowBlock and no negative span, and the rows emitted so far are saturated.
\<close>

definition rowSaturated :: "int \<Rightarrow> row \<Rightarrow> bool" where
  "rowSaturated cc r =
     ((\<forall>c \<in> set (cells r). \<not> distributeEqually c) \<longrightarrow> sum_list (map span (cells r)) = cc)"

definition packInv :: "int \<Rightarrow> row list \<times> cell list \<times> int \<Rightarrow> bool" where
  "packInv cc st =
     (case st of (rs, cur, used) \<Rightarrow>
        used = sum_list (map span cur) \<and> used \<le> cc \<and>
        (\<forall>c \<in> set cur. \<not> isRowBlock (item c) \<and> 0 \<le> span c) \<and>
        (\<forall>r \<in> set rs. rowSaturated cc r))"

lemma span_le_sum:
  "\<forall>c \<in> set cs. 0 \<le> span c \<Longrightarrow> c \<in> set cs \<Longrightarrow> span c \<le> sum_list (map span cs)"
proof (induction cs)
  case Nil
  then show ?case by simp
next
  case (Cons a cs)
  have nn: "0 \<le> sum_list (map span cs)" using Cons.prems(1) by (auto intro!: sum_list_nonneg)
  show ?case
  proof (cases "c = a")
    case True
    then show ?thesis using nn by simp
  next
    case False
    with Cons have "span c \<le> sum_list (map span cs)" by simp
    moreover have "0 \<le> span a" using Cons.prems(1) by simp
    ultimately show ?thesis by simp
  qed
qed

lemma flushCells_saturated:
  assumes ne: "cur \<noteq> []"
    and used: "used = sum_list (map span cur)" "used \<le> cc"
    and cs: "\<forall>c \<in> set cur. \<not> isRowBlock (item c) \<and> 0 \<le> span c"
  shows "rowSaturated cc \<lparr>cells = flushCells cc cur used\<rparr>"
proof (cases "cc - used > 0")
  case False
  with used have "flushCells cc cur used = cur" "sum_list (map span cur) = cc"
    by (simp_all add: flushCells_def Let_def)
  then show ?thesis by (simp add: rowSaturated_def)
next
  case pos: True
  let ?n = "length cur"
  let ?rem = "cc - used"
  have fil: "filter (\<lambda>c. \<not> isRowBlock (item c)) cur = cur" using cs by (simp add: filter_id_conv)
  have npos: "0 < ?n" using ne by simp
  show ?thesis
  proof (cases "list_all (\<lambda>c. span c = 1) cur \<and> ?rem < int ?n")
    case True
    then have "flushCells cc cur used = map (\<lambda>c. c\<lparr>distributeEqually := True\<rparr>) cur"
      using pos fil npos by (simp add: flushCells_def Let_def)
    moreover obtain a as where "cur = a # as" using ne by (cases cur) auto
    ultimately show ?thesis by (simp add: rowSaturated_def)
  next
    case False
    define q where "q = ?rem div int ?n"
    define r where "r = ?rem mod int ?n"
    have fc: "flushCells cc cur used = expandCells cc q r 0 cur"
      using pos fil npos False by (auto simp add: flushCells_def Let_def q_def r_def)
    have r: "0 \<le> r" "r < int ?n" using npos by (simp_all add: r_def)
    have q: "0 \<le> q" using pos npos by (simp add: q_def pos_imp_zdiv_nonneg_iff)
    have decomp: "q * int ?n + r = ?rem" by (simp add: q_def r_def)
    have qn: "q \<le> q * int ?n" using mult_left_mono[of 1 "int ?n" q] q npos by simp
    have extra: "q + (if 0 < r then 1 else 0) \<le> ?rem"
      using decomp qn r(1) by (auto split: if_splits)
    have bound: "\<forall>c \<in> set cur. \<not> isRowBlock (item c) \<and> span c + q + (if 0 < r then 1 else 0) \<le> cc"
    proof
      fix c assume c: "c \<in> set cur"
      have "span c \<le> used" using span_le_sum[of cur c] cs c used by simp
      then show "\<not> isRowBlock (item c) \<and> span c + q + (if 0 < r then 1 else 0) \<le> cc"
        using extra cs c by (auto split: if_splits)
    qed
    have "sum_list (map span (expandCells cc q r 0 cur))
            = sum_list (map span cur) + q * int ?n + max 0 (min (int ?n) (r - int 0))"
      by (rule expandCells_sum[OF bound])
    also have "\<dots> = used + q * int ?n + r" using r used by (simp add: min_def max_def)
    also have "\<dots> = cc" using decomp by simp
    finally show ?thesis using fc by (simp add: rowSaturated_def)
  qed
qed

lemma flush_inv:
  assumes "packInv cc st" "0 \<le> cc"
  shows "packInv cc (flush cc st) \<and> fst (snd (flush cc st)) = [] \<and> snd (snd (flush cc st)) = 0"
proof -
  obtain rs cur used where st: "st = (rs, cur, used)" by (cases st) auto
  show ?thesis
  proof (cases "cur = []")
    case True
    with assms st show ?thesis by (simp add: flush_def packInv_def)
  next
    case False
    from assms st have "rowSaturated cc \<lparr>cells = flushCells cc cur used\<rparr>"
      using flushCells_saturated[OF False, of used cc] by (simp add: packInv_def)
    with assms st False show ?thesis by (simp add: flush_def packInv_def)
  qed
qed

lemma packStep_inv:
  assumes inv: "packInv cc st" and cc: "1 \<le> cc"
    and it: "case it of Widget w \<Rightarrow> 0 \<le> minColSpan w | RowBlock rb \<Rightarrow> True"
  shows "packInv cc (packStep cc it st)"
proof (cases "itemSpan it cc \<ge> cc")
  case True
  obtain rs cur used where f: "flush cc st = (rs, cur, used)" by (cases "flush cc st") auto
  have "packInv cc (flush cc st)" using flush_inv[OF inv] cc by simp
  then have "packInv cc (rs, cur, used)" using f by simp
  with True f show ?thesis
    by (simp add: packStep_def Let_def packInv_def rowSaturated_def)
next
  case False
  then obtain w where w: "it = Widget w" by (cases it) (auto simp: itemSpan_def)
  with it cc have sp: "0 \<le> itemSpan it cc" "itemSpan it cc < cc" using False
    by (simp_all add: itemSpan_def effectiveSpan_def)
  obtain rs cur used where st: "st = (rs, cur, used)" by (cases st) auto
  show ?thesis
  proof (cases "used + itemSpan it cc > cc")
    case over: True
    obtain rs' cur' used' where f: "flush cc st = (rs', cur', used')" by (cases "flush cc st") auto
    have fi: "packInv cc (flush cc st) \<and> fst (snd (flush cc st)) = [] \<and> snd (snd (flush cc st)) = 0"
      using flush_inv[OF inv] cc by simp
    have "packInv cc (rs', cur', used')" "cur' = []" "used' = 0" using fi f by auto
    with over f st False sp w show ?thesis
      by (simp add: packStep_def Let_def packInv_def)
  next
    case fits: False
    with inv st False sp w show ?thesis
      by (simp add: packStep_def Let_def packInv_def)
  qed
qed

lemma packLoop_inv:
  assumes "packInv cc st" "1 \<le> cc"
    "\<forall>it \<in> set items. case it of Widget w \<Rightarrow> 0 \<le> minColSpan w | RowBlock rb \<Rightarrow> True"
  shows "packInv cc (packLoop cc items st)"
  using assms
proof (induction items arbitrary: st)
  case Nil
  then show ?case by simp
next
  case (Cons it items)
  have "packInv cc (packStep cc it st)"
    using packStep_inv[OF Cons.prems(1,2)] Cons.prems(3) by simp
  then show ?case using Cons by simp
qed

text \<open>
  Claim C5.  For every sequence of widgets and RowBlocks and every column count of at
  least 1, every row that the packer emits and that holds no cell marked
  \<^verbatim>\<open>distributeEqually\<close> has spans that add up to the column count exactly.  This covers the
  second alternative of the claim: a RowBlock, or a widget whose span reaches the column
  count, is alone in its row, in a single cell of span \<open>colCount\<close>.  The widgets are those of
  the data model, whose \<^verbatim>\<open>minColSpan\<close> lies in 1..4; the proof needs no more than that it is
  not negative.
\<close>

theorem packRows_row_saturation:
  assumes cc: "1 \<le> cc"
    and items: "\<forall>it \<in> set items. case it of Widget w \<Rightarrow> 0 \<le> minColSpan w | RowBlock rb \<Rightarrow> True"
    and r: "r \<in> set (packRows items cc)"
    and nd: "\<forall>c \<in> set (cells r). \<not> distributeEqually c"
  shows "sum_list (map span (cells r)) = cc"
proof -
  have "packInv cc ([], [], 0)" using cc by (simp add: packInv_def)
  then have "packInv cc (packLoop cc items ([], [], 0))" by (rule packLoop_inv[OF _ cc items])
  then have "packInv cc (flush cc (packLoop cc items ([], [], 0)))" using flush_inv cc by simp
  then have "\<forall>r \<in> set (packRows items cc). rowSaturated cc r"
    by (cases "flush cc (packLoop cc items ([], [], 0))") (simp add: packInv_def packRows_def)
  with r nd show ?thesis by (simp add: rowSaturated_def)
qed

theorem packRows_row_saturation_witness:
  "(1 :: int) \<le> 4 \<and>
   packRows (map Widget [newWidget ''w_0'' ''M'', newWidget ''w_1'' ''L'', newWidget ''w_2'' ''XS'']) 4 ! 0
     = \<lparr>cells = [\<lparr>item = Widget (newWidget ''w_0'' ''M''), span = 4, distributeEqually = False\<rparr>]\<rparr> \<and>
   sum_list (map span (cells (packRows
     (map Widget [newWidget ''w_0'' ''M'', newWidget ''w_1'' ''L'', newWidget ''w_2'' ''XS'']) 4 ! 0))) = 4"
  using packRows_row_saturation [of 4
      "map Widget [newWidget ''w_0'' ''M'', newWidget ''w_1'' ''L'', newWidget ''w_2'' ''XS'']"
      "packRows (map Widget [newWidget ''w_0'' ''M'', newWidget ''w_1'' ''L'', newWidget ''w_2'' ''XS'']) 4 ! 0"]
  by (simp add: packer_eval)

section \<open>Properties of the composer\<close>

subsection \<open>Heights and the end of the backward scan\<close>

text \<open>
  The heights of the table \<^verbatim>\<open>TOKENS.minHeightsRem\<close> (XS, S, M, L, XL), from which
  \<^verbatim>\<open>getWidgetConfig\<close> takes the \<^verbatim>\<open>minHeightRem\<close> of every widget that the editor builds.
\<close>

definition tokenHeight :: "widget \<Rightarrow> bool" where
  "tokenHeight w = (minHeightRem w \<in> {10, 16, 22, 32, 46})"

text \<open>
  The height of a rail as the specification words it: the sum of the members'
  \<^verbatim>\<open>minHeightRem\<close>, plus the gap \<^verbatim>\<open>vGapRem\<close> between neighbours, that is, once for every member
  but the first.
\<close>

definition railHeightOf :: "widget list \<Rightarrow> rat" where
  "railHeightOf ws = sum_list (map minHeightRem ws) + vGapRem * of_nat (length ws - 1)"

lemma railHeightOf_Nil: "railHeightOf [] = 0"
  by (simp add: railHeightOf_def)

lemma railHeightOf_snoc:
  "railHeightOf (ws @ [w]) =
     railHeightOf ws + (if length ws > 0 then vGapRem else 0) + minHeightRem w"
proof (cases ws)
  case Nil
  then show ?thesis by (simp add: railHeightOf_def)
next
  case (Cons a as)
  then show ?thesis by (simp add: railHeightOf_def algebra_simps)
qed

lemma railHeightOf_rev: "railHeightOf (rev ws) = railHeightOf ws"
  by (simp add: railHeightOf_def rev_map[symmetric])

lemma capturePrev_heights:
  "capturePrev items colCount railTarget kp cap h c = (sp, cap', h', c') \<Longrightarrow>
   h = railHeightOf cap \<Longrightarrow> c = length cap \<Longrightarrow> (cap \<noteq> [] \<longrightarrow> h \<le> railTarget) \<Longrightarrow>
   length cap \<le> maxRailItems \<Longrightarrow>
     h' = railHeightOf cap' \<and> c' = length cap' \<and> (cap' \<noteq> [] \<longrightarrow> h' \<le> railTarget) \<and>
     length cap' \<le> maxRailItems"
proof (induction kp arbitrary: cap h c)
  case 0
  then show ?case by auto
next
  case (Suc k)
  show ?case
  proof (cases "items ! k")
    case (RowBlock rb)
    with Suc.prems show ?thesis by auto
  next
    case (Widget pw)
    show ?thesis
    proof (cases "effectiveSpan pw colCount \<noteq> 1 \<or> \<not> canTake colCount railTarget h c pw")
      case True
      with Suc.prems Widget show ?thesis by (auto split: if_splits)
    next
      case False
      let ?h = "h + (if c > 0 then vGapRem else 0) + minHeightRem pw"
      from False Suc.prems(1) Widget
      have rec: "capturePrev items colCount railTarget k (cap @ [pw]) ?h (Suc c) = (sp, cap', h', c')"
        by simp
      from False have ct: "canTake colCount railTarget h c pw" by simp
      then have lt: "c < maxRailItems" and fit: "?h \<le> railTarget"
        by (auto simp: canTake_def split: if_splits)
      have h2: "?h = railHeightOf (cap @ [pw])"
        using Suc.prems(2,3) by (simp add: railHeightOf_snoc)
      have c2: "Suc c = length (cap @ [pw])" using Suc.prems(3) by simp
      have f2: "cap @ [pw] \<noteq> [] \<longrightarrow> ?h \<le> railTarget" using fit by simp
      have l2: "length (cap @ [pw]) \<le> maxRailItems" using lt Suc.prems(3) by simp
      show ?thesis by (rule Suc.IH[OF rec h2 c2 f2 l2])
    qed
  qed
qed

lemma captureNext_heights:
  "captureNext items colCount railTarget j cap h c = (cap', h', c') \<Longrightarrow>
   h = railHeightOf cap \<Longrightarrow> c = length cap \<Longrightarrow> (cap \<noteq> [] \<longrightarrow> h \<le> railTarget) \<Longrightarrow>
   length cap \<le> maxRailItems \<Longrightarrow>
     h' = railHeightOf cap' \<and> c' = length cap' \<and> (cap' \<noteq> [] \<longrightarrow> h' \<le> railTarget) \<and>
     length cap' \<le> maxRailItems"
proof (induction items colCount railTarget j cap h c rule: captureNext.induct)
  case (1 items colCount railTarget j cap h c)
  show ?case
  proof (cases "j < length items")
    case False
    with "1.prems" show ?thesis by (auto simp: captureNext.simps[of items])
  next
    case jl: True
    show ?thesis
    proof (cases "items ! j")
      case (RowBlock rb)
      with "1.prems" jl show ?thesis by (auto simp: captureNext.simps[of items])
    next
      case (Widget nx)
      show ?thesis
      proof (cases "effectiveSpan nx colCount \<noteq> 1 \<or> \<not> canTake colCount railTarget h c nx")
        case True
        with "1.prems" jl Widget show ?thesis
          by (auto simp: captureNext.simps[of items] split: if_splits)
      next
        case False
        let ?h = "h + (if c > 0 then vGapRem else 0) + minHeightRem nx"
        from False "1.prems"(1) Widget jl
        have rec: "captureNext items colCount railTarget (j + 1) (cap @ [nx]) ?h (Suc c) = (cap', h', c')"
          by (simp add: captureNext.simps[of items colCount railTarget j])
        from False have f: "\<not> effectiveSpan nx colCount \<noteq> 1" "\<not> \<not> canTake colCount railTarget h c nx"
          by simp_all
        from False have ct: "canTake colCount railTarget h c nx" by simp
        then have lt: "c < maxRailItems" and fit: "?h \<le> railTarget"
          by (auto simp: canTake_def split: if_splits)
        have h2: "?h = railHeightOf (cap @ [nx])"
          using "1.prems"(2,3) by (simp add: railHeightOf_snoc)
        have c2: "Suc c = length (cap @ [nx])" using "1.prems"(3) by simp
        have f2: "cap @ [nx] \<noteq> [] \<longrightarrow> ?h \<le> railTarget" using fit by simp
        have l2: "length (cap @ [nx]) \<le> maxRailItems" using lt "1.prems"(3) by simp
        show ?thesis by (rule "1.IH"[OF jl Widget f rec h2 c2 f2 l2])
      qed
    qed
  qed
qed

lemma capturePrev_stop:
  "capturePrev items colCount railTarget kp cap h c = (sp, cap', h', c') \<Longrightarrow>
     sp = 0 \<or> (case items ! (sp - 1) of RowBlock rb \<Rightarrow> True
               | Widget pw \<Rightarrow> \<not> canTake colCount railTarget h' c' pw)"
proof (induction kp arbitrary: cap h c)
  case 0
  then show ?case by simp
next
  case (Suc k)
  show ?case
  proof (cases "items ! k")
    case (RowBlock rb)
    with Suc.prems show ?thesis by auto
  next
    case (Widget pw)
    show ?thesis
    proof (cases "effectiveSpan pw colCount \<noteq> 1 \<or> \<not> canTake colCount railTarget h c pw")
      case True
      then have "\<not> canTake colCount railTarget h c pw" by (auto simp: canTake_def)
      with True Suc.prems Widget show ?thesis by (auto split: if_splits)
    next
      case False
      with Suc.prems Widget show ?thesis using Suc.IH by simp
    qed
  qed
qed

lemma capturePrev_first:
  assumes "capturePrev items colCount railTarget i [] 0 0 = (sp, cp, h, c)" "i \<le> length items"
  shows "cp \<noteq> [] \<longleftrightarrow>
           (0 < i \<and> (case items ! (i - 1) of RowBlock rb \<Rightarrow> False
                     | Widget pw \<Rightarrow> canTake colCount railTarget 0 0 pw))"
proof (cases i)
  case 0
  with assms show ?thesis by simp
next
  case (Suc k)
  show ?thesis
  proof (cases "items ! k")
    case (RowBlock rb)
    with assms Suc show ?thesis by auto
  next
    case (Widget pw)
    show ?thesis
    proof (cases "effectiveSpan pw colCount \<noteq> 1 \<or> \<not> canTake colCount railTarget 0 0 pw")
      case True
      then have "\<not> canTake colCount railTarget 0 0 pw" by (auto simp: canTake_def)
      with True assms Suc Widget show ?thesis by (auto split: if_splits)
    next
      case False
      with assms(1) Suc Widget
      have rec: "capturePrev items colCount railTarget k ([] @ [pw]) (0 + 0 + minHeightRem pw) (Suc 0)
                   = (sp, cp, h, c)" by simp
      from assms(2) Suc have "k \<le> length items" by simp
      from capturePrev_shape[OF rec this] have "cp \<noteq> []" by auto
      with False Suc Widget show ?thesis by simp
    qed
  qed
qed

lemma capturePrev_none:
  assumes "capturePrev items colCount railTarget i [] 0 0 = (sp, [], h, c)" "i \<le> length items"
  shows "sp = i \<and> h = 0 \<and> c = 0"
proof -
  from capturePrev_shape[OF assms] have "sp \<le> i" "0 = i - sp" "c = 0" by auto
  moreover from capturePrev_heights[OF assms(1)] have "h = 0"
    by (simp add: railHeightOf_Nil)
  ultimately show ?thesis by simp
qed

subsection \<open>Direction priority\<close>

text \<open>
  What one round of the main loop does at a seed, a widget of effective span 3 at index
  \<open>i\<close>.  The backward scan comes first: it takes the items right before the seed, from right
  to left, each a widget of span 1, and stops at the start of the array, at a RowBlock or at
  the first widget that \<^verbatim>\<open>canTake\<close> refuses.  If it captured anything, the RowBlock with the
  reversed captures takes the place of the run and the seed, and nothing behind the seed is
  removed; otherwise the rail is the run that the forward scan takes behind the seed.
\<close>

lemma seedStep_direction:
  assumes il: "i < length items" and seed: "items ! i = Widget w" "effectiveSpan w 4 = 3"
    and cp: "capturePrev items 4 (minHeightRem w + toleranceRem) i [] 0 0
               = (startPrev, capturedPrev, railHeight, railCount)"
  shows "rowBlockLoop items 4 i =
           rowBlockLoop (fst (seedStep items 4 i w)) 4 (snd (seedStep items 4 i w) + 1) \<and>
         startPrev \<le> i \<and>
         map Widget (rev capturedPrev) = take (i - startPrev) (drop startPrev items) \<and>
         list_all (\<lambda>pw. effectiveSpan pw 4 = 1) capturedPrev \<and>
         (startPrev = 0 \<or>
            (case items ! (startPrev - 1) of
               RowBlock rb \<Rightarrow> True
             | Widget pw \<Rightarrow> \<not> canTake 4 (minHeightRem w + toleranceRem) railHeight railCount pw)) \<and>
         ((capturedPrev \<noteq> []) =
            (0 < i \<and> (case items ! (i - 1) of
                         RowBlock rb \<Rightarrow> False
                       | Widget pw \<Rightarrow> canTake 4 (minHeightRem w + toleranceRem) 0 0 pw))) \<and>
         (if capturedPrev \<noteq> [] then
            seedStep items 4 i w =
              (take startPrev items
                 @ [RowBlock \<lparr>main = w, rail = rev capturedPrev, rowblock_id = ''rb-'' @ widget_id w\<rparr>]
                 @ drop (i + 1) items,
               startPrev)
          else
            (\<exists>capturedNext h c.
               captureNext items 4 (minHeightRem w + toleranceRem) (i + 1) [] 0 0 = (capturedNext, h, c) \<and>
               map Widget capturedNext = take (length capturedNext) (drop (i + 1) items) \<and>
               seedStep items 4 i w =
                 (if capturedNext = [] then (items, i)
                  else (take i items
                          @ [RowBlock \<lparr>main = w, rail = capturedNext, rowblock_id = ''rb-'' @ widget_id w\<rparr>]
                          @ drop (i + 1 + length capturedNext) items,
                        i))))"
proof -
  let ?T = "minHeightRem w + toleranceRem"
  have il': "i \<le> length items" using il by simp
  have loop: "rowBlockLoop items 4 i =
           rowBlockLoop (fst (seedStep items 4 i w)) 4 (snd (seedStep items 4 i w) + 1)"
    using il seed by (subst rowBlockLoop.simps) (simp add: case_prod_beta)
  from capturePrev_shape[OF cp il']
  have shape: "startPrev \<le> i"
    "map Widget (rev capturedPrev) = take (i - startPrev) (drop startPrev items)"
    "list_all (\<lambda>pw. effectiveSpan pw 4 = 1) capturedPrev"
    by (auto simp: list_all_iff)
  note stop = capturePrev_stop[OF cp]
  note first = capturePrev_first[OF cp il']
  have step: "if capturedPrev \<noteq> [] then
            seedStep items 4 i w =
              (take startPrev items
                 @ [RowBlock \<lparr>main = w, rail = rev capturedPrev, rowblock_id = ''rb-'' @ widget_id w\<rparr>]
                 @ drop (i + 1) items,
               startPrev)
          else
            (\<exists>capturedNext h c.
               captureNext items 4 ?T (i + 1) [] 0 0 = (capturedNext, h, c) \<and>
               map Widget capturedNext = take (length capturedNext) (drop (i + 1) items) \<and>
               seedStep items 4 i w =
                 (if capturedNext = [] then (items, i)
                  else (take i items
                          @ [RowBlock \<lparr>main = w, rail = capturedNext, rowblock_id = ''rb-'' @ widget_id w\<rparr>]
                          @ drop (i + 1 + length capturedNext) items,
                        i)))"
  proof (cases "capturedPrev = []")
    case False
    with seedStep_back[OF il' cp False] show ?thesis by simp
  next
    case True
    from capturePrev_none[OF cp[unfolded True] il'] have z: "railHeight = 0" "railCount = 0"
      by simp_all
    obtain cn h2 c2 where cn: "captureNext items 4 ?T (i + 1) [] 0 0 = (cn, h2, c2)"
      by (metis prod_cases3)
    from captureNext_shape[OF cn]
    have m: "map Widget cn = take (length cn) (drop (i + 1) items)" by auto
    from seedStep_fwd[OF il cp[unfolded True z] cn] cn m True show ?thesis by simp
  qed
  from loop shape stop first step show ?thesis by simp
qed


















subsection \<open>RowBlock containment\<close>

text \<open>What the composer guarantees for each RowBlock it builds.\<close>

definition railFits :: "int \<Rightarrow> rowblock \<Rightarrow> bool" where
  "railFits colCount rb =
     (rail rb \<noteq> [] \<and> length (rail rb) \<le> 4 \<and>
      list_all (\<lambda>w. effectiveSpan w colCount = 1) (rail rb) \<and>
      railHeightOf (rail rb) \<le> minHeightRem (main rb) + 2)"

lemma seedStep_rowblocks:
  assumes il: "i < length items" and st: "seedStep items colCount i w = (items', i')"
    and rb: "RowBlock rb \<in> set items'"
  shows "RowBlock rb \<in> set items \<or> railFits colCount rb"
proof -
  let ?T = "minHeightRem w + toleranceRem"
  obtain sp cp h c where cp: "capturePrev items colCount ?T i [] 0 0 = (sp, cp, h, c)"
    by (metis prod_cases4)
  have il': "i \<le> length items" using il by simp
  from capturePrev_shape[OF cp il']
  have sh: "\<forall>x \<in> set cp. effectiveSpan x colCount = 1" by auto
  from capturePrev_heights[OF cp] have hp: "h = railHeightOf cp" "c = length cp"
    "cp \<noteq> [] \<longrightarrow> h \<le> ?T" "length cp \<le> maxRailItems"
    by (auto simp add: railHeightOf_Nil)
  show ?thesis
  proof (cases "cp = []")
    case False
    let ?new = "\<lparr>main = w, rail = rev cp, rowblock_id = ''rb-'' @ widget_id w\<rparr>"
    from seedStep_back[OF il' cp False] st
    have "items' = take sp items @ [RowBlock ?new] @ drop (Suc i) items" by simp
    with rb have "RowBlock rb \<in> set (take sp items) \<or> rb = ?new \<or> RowBlock rb \<in> set (drop (Suc i) items)"
      by auto
    moreover have "railFits colCount ?new"
      using False sh hp by (simp add: railFits_def railHeightOf_rev maxRailItems_def toleranceRem_def list_all_iff)
    ultimately show ?thesis by (auto dest: in_set_takeD in_set_dropD)
  next
    case True
    obtain cn h2 c2 where cn: "captureNext items colCount ?T (i + 1) [] h c = (cn, h2, c2)"
      by (metis prod_cases3)
    from capturePrev_none[OF cp[unfolded True] il'] have z: "h = 0" "c = 0" by simp_all
    from captureNext_shape[OF cn] have shn: "\<forall>x \<in> set cn. effectiveSpan x colCount = 1" by auto
    from captureNext_heights[OF cn] z have hn: "h2 = railHeightOf cn"
      "cn \<noteq> [] \<longrightarrow> h2 \<le> ?T" "length cn \<le> maxRailItems"
      by (auto simp add: railHeightOf_Nil)
    let ?new = "\<lparr>main = w, rail = cn, rowblock_id = ''rb-'' @ widget_id w\<rparr>"
    show ?thesis
    proof (cases "cn = []")
      case True
      with seedStep_fwd[OF il cp[unfolded \<open>cp = []\<close>] cn] st rb show ?thesis by simp
    next
      case False
      with seedStep_fwd[OF il cp[unfolded \<open>cp = []\<close>] cn] st
      have "items' = take i items @ [RowBlock ?new] @ drop (i + 1 + length cn) items" by simp
      with rb have "RowBlock rb \<in> set (take i items) \<or> rb = ?new
                      \<or> RowBlock rb \<in> set (drop (i + 1 + length cn) items)"
        by auto
      moreover have "railFits colCount ?new"
        using False shn hn by (simp add: railFits_def maxRailItems_def toleranceRem_def list_all_iff)
      ultimately show ?thesis by (auto dest: in_set_takeD in_set_dropD)
    qed
  qed
qed

lemma rowBlockLoop_rowblocks:
  "\<forall>rb. RowBlock rb \<in> set items \<longrightarrow> railFits colCount rb \<Longrightarrow>
     \<forall>rb. RowBlock rb \<in> set (rowBlockLoop items colCount i) \<longrightarrow> railFits colCount rb"
proof (induction items colCount i rule: rowBlockLoop.induct)
  case (1 items colCount i)
  show ?case
  proof (cases "i < length items")
    case False
    then have "rowBlockLoop items colCount i = items" by (subst rowBlockLoop.simps) simp
    with "1.prems" show ?thesis by simp
  next
    case il: True
    show ?thesis
    proof (cases "items ! i")
      case (RowBlock rb)
      then have "rowBlockLoop items colCount i = rowBlockLoop items colCount (i + 1)"
        using il by (subst rowBlockLoop.simps) simp
      with "1.IH"(3)[OF il RowBlock "1.prems"] show ?thesis by simp
    next
      case (Widget w)
      show ?thesis
      proof (cases "effectiveSpan w colCount \<noteq> 3")
        case True
        then have "rowBlockLoop items colCount i = rowBlockLoop items colCount (i + 1)"
          using il Widget by (subst rowBlockLoop.simps) simp
        with "1.IH"(1)[OF il Widget True "1.prems"] show ?thesis by simp
      next
        case False
        obtain items' i' where st: "seedStep items colCount i w = (items', i')"
          by (cases "seedStep items colCount i w") auto
        have eq: "rowBlockLoop items colCount i = rowBlockLoop items' colCount (i' + 1)"
          using il Widget False st by (subst rowBlockLoop.simps) simp
        have inv: "\<forall>rb. RowBlock rb \<in> set items' \<longrightarrow> railFits colCount rb"
          using seedStep_rowblocks[OF il st] "1.prems" by blast
        from "1.IH"(2)[OF il Widget False st[symmetric] inv] eq show ?thesis by simp
      qed
    qed
  qed
qed

text \<open>
  Claim C6.  Every RowBlock in the result of the composer on a list of widgets exists only
  at \<open>colCount = 4\<close> and has a rail of at most 4 widgets, each of effective span 1; and when
  the heights of the widgets are those of the table, the height of its rail (heights plus a
  gap of 0.75 rem between accepted neighbours) is at most \<open>main.minHeightRem + 2\<close>.  At any
  other column count the composer returns its input as it is, so a list of widgets stays a
  list of widgets.
\<close>

theorem rowblock_containment:
  "(RowBlock rb \<in> set (transformRowBlocks (map Widget ws) colCount) \<longrightarrow>
      colCount = 4 \<and> length (rail rb) \<le> 4 \<and>
      (\<forall>w \<in> set (rail rb). effectiveSpan w colCount = 1) \<and>
      (list_all tokenHeight ws \<longrightarrow> railHeightOf (rail rb) \<le> minHeightRem (main rb) + 2)) \<and>
   (colCount \<noteq> 4 \<longrightarrow> transformRowBlocks items colCount = items)"
proof -
  have a: "\<forall>rb. RowBlock rb \<in> set (map Widget ws) \<longrightarrow> railFits colCount rb" by auto
  have b: "colCount \<noteq> 4 \<longrightarrow> transformRowBlocks items colCount = items"
    by (simp add: transformRowBlocks_def)
  have c: "RowBlock rb \<in> set (transformRowBlocks (map Widget ws) colCount) \<longrightarrow>
             colCount = 4 \<and> railFits colCount rb"
  proof
    assume m: "RowBlock rb \<in> set (transformRowBlocks (map Widget ws) colCount)"
    show "colCount = 4 \<and> railFits colCount rb"
    proof (cases "colCount = 4")
      case True
      with m have "RowBlock rb \<in> set (rowBlockLoop (map Widget ws) colCount 0)"
        by (simp add: transformRowBlocks_def)
      with rowBlockLoop_rowblocks[OF a, of 0] True show ?thesis by blast
    next
      case False
      with m have "RowBlock rb \<in> set (map Widget ws)" by (simp add: transformRowBlocks_def)
      then show ?thesis by auto
    qed
  qed
  from b c show ?thesis by (simp add: railFits_def list_all_iff)
qed

theorem rowblock_containment_witness:
  "list_all tokenHeight [newWidget ''w_0'' ''S'', newWidget ''w_1'' ''S'', newWidget ''w_2'' ''L''] \<and>
   RowBlock \<lparr>main = newWidget ''w_2'' ''L'', rail = [newWidget ''w_0'' ''S'', newWidget ''w_1'' ''S''],
             rowblock_id = ''rb-w_2''\<rparr>
     \<in> set (transformRowBlocks (map Widget [newWidget ''w_0'' ''S'', newWidget ''w_1'' ''S'',
                                            newWidget ''w_2'' ''L'']) 4) \<and>
   railHeightOf [newWidget ''w_0'' ''S'', newWidget ''w_1'' ''S'']
     \<le> minHeightRem (newWidget ''w_2'' ''L'') + 2 \<and>
   (3 :: int) \<noteq> 4 \<and>
   transformRowBlocks (map Widget [newWidget ''w_0'' ''S'', newWidget ''w_1'' ''S'',
                                  newWidget ''w_2'' ''L'']) 3
     = map Widget [newWidget ''w_0'' ''S'', newWidget ''w_1'' ''S'', newWidget ''w_2'' ''L'']"
proof -
  have h: "list_all tokenHeight [newWidget ''w_0'' ''S'', newWidget ''w_1'' ''S'', newWidget ''w_2'' ''L'']"
    by (simp add: tokenHeight_def newWidget_def getWidgetConfig_def)
  have m: "RowBlock \<lparr>main = newWidget ''w_2'' ''L'', rail = [newWidget ''w_0'' ''S'', newWidget ''w_1'' ''S''],
             rowblock_id = ''rb-w_2''\<rparr>
     \<in> set (transformRowBlocks (map Widget [newWidget ''w_0'' ''S'', newWidget ''w_1'' ''S'',
                                            newWidget ''w_2'' ''L'']) 4)"
    by (simp add: composer_eval)
  from h m rowblock_containment [where colCount = 4
      and ws = "[newWidget ''w_0'' ''S'', newWidget ''w_1'' ''S'', newWidget ''w_2'' ''L'']"
      and rb = "\<lparr>main = newWidget ''w_2'' ''L'',
                 rail = [newWidget ''w_0'' ''S'', newWidget ''w_1'' ''S''],
                 rowblock_id = ''rb-w_2''\<rparr>"]
    rowblock_containment [where colCount = 3
      and items = "map Widget [newWidget ''w_0'' ''S'', newWidget ''w_1'' ''S'', newWidget ''w_2'' ''L'']"]
  show ?thesis by simp
qed

section \<open>Properties of the fit check\<close>

text \<open>
  Claim C1.  For a widget section that holds at least one widget and a size other than
  FILTER (every size has a widget config), the fit check returns true if and only if the
  layout of the section with a widget of that size appended has as many rows as the layout
  of the section as it is; in particular it returns false when the appended widget adds a
  row.  The section is the one that the lookup by id finds, the width is that of the
  canvas.
\<close>

theorem fit_oracle_row_count:
  assumes "widgetSize \<noteq> ''FILTER''"
    and "find (\<lambda>s. Some (section_id s) = sectionId) (sections ed) = Some (WidgetSection sid ttl ws)"
    and "ws \<noteq> []"
  shows "canWidgetFitInSection ed widgetSize sectionId =
           (length (layout_rows (layoutSection
                      (WidgetSection sid ttl (ws @ [newWidget ''temp'' widgetSize])) (offsetWidth ed)))
            = length (layout_rows (layoutSection (WidgetSection sid ttl ws) (offsetWidth ed)))) \<and>
         (length (layout_rows (layoutSection
                      (WidgetSection sid ttl (ws @ [newWidget ''temp'' widgetSize])) (offsetWidth ed)))
            > length (layout_rows (layoutSection (WidgetSection sid ttl ws) (offsetWidth ed)))
          \<longrightarrow> \<not> canWidgetFitInSection ed widgetSize sectionId)"
  using assms
  by (simp add: canWidgetFitInSection_def canWidgetFitInSectionWith_def fitSimulation_def
        layoutSection_def Let_def)

theorem fit_oracle_row_count_witness:
  "\<not> canWidgetFitInSection
       \<lparr>sections = [WidgetSection ''s_0'' ''New Section'' [newWidget ''w_0'' ''M'']],
        offsetWidth = 1280, isDraggingFromPanel = True, draggedWidgetSize = Some ''L'',
        draggedWidget = None\<rparr> ''L'' (Some ''s_0'') \<and>
   length (layout_rows (layoutSection
      (WidgetSection ''s_0'' ''New Section'' [newWidget ''w_0'' ''M'', newWidget ''temp'' ''L'']) 1280)) = 2 \<and>
   length (layout_rows (layoutSection
      (WidgetSection ''s_0'' ''New Section'' [newWidget ''w_0'' ''M'']) 1280)) = 1 \<and>
   canWidgetFitInSection
       \<lparr>sections = [WidgetSection ''s_0'' ''New Section'' [newWidget ''w_0'' ''M'']],
        offsetWidth = 1280, isDraggingFromPanel = True, draggedWidgetSize = Some ''M'',
        draggedWidget = None\<rparr> ''M'' (Some ''s_0'')"
proof -
  let ?ed = "\<lambda>s. \<lparr>sections = [WidgetSection ''s_0'' ''New Section'' [newWidget ''w_0'' ''M'']],
        offsetWidth = 1280, isDraggingFromPanel = True, draggedWidgetSize = Some s,
        draggedWidget = None\<rparr>"
  have a: "length (layout_rows (layoutSection
      (WidgetSection ''s_0'' ''New Section'' [newWidget ''w_0'' ''M'', newWidget ''temp'' ''L'']) 1280)) = 2"
    by (simp add: layoutSection_def getColCountFromWidth_def composer_eval packer_eval)
  have b: "length (layout_rows (layoutSection
      (WidgetSection ''s_0'' ''New Section'' [newWidget ''w_0'' ''M'']) 1280)) = 1"
    by (simp add: layoutSection_def getColCountFromWidth_def composer_eval packer_eval)
  have c: "length (layout_rows (layoutSection
      (WidgetSection ''s_0'' ''New Section'' [newWidget ''w_0'' ''M'', newWidget ''temp'' ''M'']) 1280)) = 1"
    by (simp add: layoutSection_def getColCountFromWidth_def composer_eval packer_eval)
  from fit_oracle_row_count [of "''L''" "Some ''s_0''" "?ed ''L''" "''s_0''" "''New Section''" "[newWidget ''w_0'' ''M'']"]
    fit_oracle_row_count [of "''M''" "Some ''s_0''" "?ed ''M''" "''s_0''" "''New Section''" "[newWidget ''w_0'' ''M'']"]
    a b c
  show ?thesis by simp
qed

text \<open>
  Claim C9.  The fit check returns false for the pseudo-size FILTER whatever the target,
  before any lookup.  For any other size it returns true when the id matches no section,
  when it matches a filter-group section, and when it matches a widget section without
  widgets.  When the composer or the packer throws during the simulation, in the layout
  before or after the candidate is appended, the fault is caught and the result is true.
\<close>

theorem fit_oracle_fail_open:
  "canWidgetFitInSection ed ''FILTER'' sectionId = False \<and>
   canWidgetFitInSectionWith transform pack ed ''FILTER'' sectionId = False \<and>
   (widgetSize \<noteq> ''FILTER'' \<and>
    (find (\<lambda>s. Some (section_id s) = sectionId) (sections ed) = None \<or>
     find (\<lambda>s. Some (section_id s) = sectionId) (sections ed) = Some (FilterGroupSection sid g) \<or>
     find (\<lambda>s. Some (section_id s) = sectionId) (sections ed) = Some (WidgetSection sid ttl []))
    \<longrightarrow> canWidgetFitInSection ed widgetSize sectionId
        \<and> canWidgetFitInSectionWith transform pack ed widgetSize sectionId) \<and>
   (widgetSize \<noteq> ''FILTER'' \<and>
    find (\<lambda>s. Some (section_id s) = sectionId) (sections ed) = Some (WidgetSection sid ttl ws) \<and>
    (let cc = getColCountFromWidth (offsetWidth ed)
     in (\<exists>e. transform (map Widget ws) cc = Inl e) \<or>
        (\<exists>itemsBefore e. transform (map Widget ws) cc = Inr itemsBefore \<and> pack itemsBefore cc = Inl e) \<or>
        (\<exists>e. transform (map Widget (ws @ [newWidget ''temp'' widgetSize])) cc = Inl e) \<or>
        (\<exists>itemsAfter e. transform (map Widget (ws @ [newWidget ''temp'' widgetSize])) cc = Inr itemsAfter
            \<and> pack itemsAfter cc = Inl e))
    \<longrightarrow> canWidgetFitInSectionWith transform pack ed widgetSize sectionId)"
proof -
  have a: "canWidgetFitInSection ed ''FILTER'' sectionId = False"
    "canWidgetFitInSectionWith transform pack ed ''FILTER'' sectionId = False"
    by (simp_all add: canWidgetFitInSection_def canWidgetFitInSectionWith_def)
  have b: "widgetSize \<noteq> ''FILTER'' \<and>
    (find (\<lambda>s. Some (section_id s) = sectionId) (sections ed) = None \<or>
     find (\<lambda>s. Some (section_id s) = sectionId) (sections ed) = Some (FilterGroupSection sid g) \<or>
     find (\<lambda>s. Some (section_id s) = sectionId) (sections ed) = Some (WidgetSection sid ttl []))
    \<longrightarrow> canWidgetFitInSection ed widgetSize sectionId
        \<and> canWidgetFitInSectionWith transform pack ed widgetSize sectionId"
    by (auto simp add: canWidgetFitInSection_def canWidgetFitInSectionWith_def)
  have c: "widgetSize \<noteq> ''FILTER'' \<and>
    find (\<lambda>s. Some (section_id s) = sectionId) (sections ed) = Some (WidgetSection sid ttl ws) \<and>
    (let cc = getColCountFromWidth (offsetWidth ed)
     in (\<exists>e. transform (map Widget ws) cc = Inl e) \<or>
        (\<exists>itemsBefore e. transform (map Widget ws) cc = Inr itemsBefore \<and> pack itemsBefore cc = Inl e) \<or>
        (\<exists>e. transform (map Widget (ws @ [newWidget ''temp'' widgetSize])) cc = Inl e) \<or>
        (\<exists>itemsAfter e. transform (map Widget (ws @ [newWidget ''temp'' widgetSize])) cc = Inr itemsAfter
            \<and> pack itemsAfter cc = Inl e))
    \<longrightarrow> canWidgetFitInSectionWith transform pack ed widgetSize sectionId"
    by (auto simp add: canWidgetFitInSectionWith_def fitSimulation_def Let_def split: sum.splits)
  from a b c show ?thesis by blast
qed

text \<open>An editor with a widget section, a filter group and an empty widget section.\<close>

definition exampleGroup :: filterGroup where
  "exampleGroup = \<lparr>group_id = ''fg_0'', group_title = ''Filter Container'', filters = [],
     group_widgets = [], minItemWidthPx = 280, gapPx = 12, alignHeightsInRow = True\<rparr>"

definition exampleEditor :: editor where
  "exampleEditor =
     \<lparr>sections = [WidgetSection ''s_0'' ''New Section'' [newWidget ''w_0'' ''M''],
                  FilterGroupSection ''s_1'' exampleGroup,
                  WidgetSection ''s_2'' ''New Section'' []],
      offsetWidth = 1280, isDraggingFromPanel = True, draggedWidgetSize = Some ''L'',
      draggedWidget = None\<rparr>"

theorem fit_oracle_fail_open_witness:
  "\<not> canWidgetFitInSection exampleEditor ''FILTER'' (Some ''s_2'') \<and>
   canWidgetFitInSection exampleEditor ''L'' (Some ''s_9'') \<and>
   canWidgetFitInSection exampleEditor ''L'' (Some ''s_1'') \<and>
   canWidgetFitInSection exampleEditor ''L'' (Some ''s_2'') \<and>
   canWidgetFitInSectionWith (\<lambda>ws cc. Inl (Thrown ''TypeError'')) (\<lambda>its cc. Inr (packRows its cc))
     exampleEditor ''L'' (Some ''s_0'') \<and>
   canWidgetFitInSectionWith (\<lambda>ws cc. Inr (transformRowBlocks ws cc)) (\<lambda>its cc. Inl (Thrown ''TypeError''))
     exampleEditor ''L'' (Some ''s_0'')"
proof -
  have s9: "find (\<lambda>s. Some (section_id s) = Some ''s_9'') (sections exampleEditor) = None"
    and s1: "find (\<lambda>s. Some (section_id s) = Some ''s_1'') (sections exampleEditor)
               = Some (FilterGroupSection ''s_1'' exampleGroup)"
    and s2: "find (\<lambda>s. Some (section_id s) = Some ''s_2'') (sections exampleEditor)
               = Some (WidgetSection ''s_2'' ''New Section'' [])"
    and s0: "find (\<lambda>s. Some (section_id s) = Some ''s_0'') (sections exampleEditor)
               = Some (WidgetSection ''s_0'' ''New Section'' [newWidget ''w_0'' ''M''])"
    by (simp_all add: exampleEditor_def)
  note t = fit_oracle_fail_open [where ed = exampleEditor and widgetSize = "''L''"]
  from t [where sectionId = "Some ''s_2''"]
  have a: "\<not> canWidgetFitInSection exampleEditor ''FILTER'' (Some ''s_2'')" by simp
  from t [where sectionId = "Some ''s_9''"] s9
  have b: "canWidgetFitInSection exampleEditor ''L'' (Some ''s_9'')" by simp
  from t [where sectionId = "Some ''s_1''" and sid = "''s_1''" and g = exampleGroup] s1
  have c: "canWidgetFitInSection exampleEditor ''L'' (Some ''s_1'')" by simp
  from t [where sectionId = "Some ''s_2''" and sid = "''s_2''" and ttl = "''New Section''"] s2
  have d: "canWidgetFitInSection exampleEditor ''L'' (Some ''s_2'')" by simp
  from t [where transform = "\<lambda>ws cc. Inl (Thrown ''TypeError'')"
            and pack = "\<lambda>its cc. Inr (packRows its cc)" and sectionId = "Some ''s_0''"
            and sid = "''s_0''" and ttl = "''New Section''" and ws = "[newWidget ''w_0'' ''M'']"] s0
  have e: "canWidgetFitInSectionWith (\<lambda>ws cc. Inl (Thrown ''TypeError'')) (\<lambda>its cc. Inr (packRows its cc))
     exampleEditor ''L'' (Some ''s_0'')" by simp
  from t [where transform = "\<lambda>ws cc. Inr (transformRowBlocks ws cc)"
            and pack = "\<lambda>its cc. Inl (Thrown ''TypeError'')" and sectionId = "Some ''s_0''"
            and sid = "''s_0''" and ttl = "''New Section''" and ws = "[newWidget ''w_0'' ''M'']"] s0
  have f: "canWidgetFitInSectionWith (\<lambda>ws cc. Inr (transformRowBlocks ws cc)) (\<lambda>its cc. Inl (Thrown ''TypeError''))
     exampleEditor ''L'' (Some ''s_0'')" by simp
  from a b c d e f show ?thesis by simp
qed

section \<open>Properties of the drop-zone resolver\<close>

text \<open>
  A zone is valid for a dragged size when it lies between sections, or when the fit check
  accepts the size for the zone's section.  The size that the resolver validates against:
  the size dragged from the panel, or else the size of the widget being moved; there is
  none when a section is dragged or nothing is.
\<close>

definition zoneFits :: "editor \<Rightarrow> string \<Rightarrow> dropZone \<Rightarrow> bool" where
  "zoneFits ed sz zone =
     (if zone_type zone = WithinSection \<or> zone_type zone = WithinFilterGroup
      then canWidgetFitInSection ed sz (zone_sectionId zone) else True)"

definition draggedSize :: "editor \<Rightarrow> string option" where
  "draggedSize ed =
     (if isDraggingFromPanel ed \<and> draggedWidgetSize ed \<noteq> None \<and> draggedWidgetSize ed \<noteq> Some []
      then draggedWidgetSize ed
      else map_option widget_size (draggedWidget ed))"

lemma classifyZones_filter:
  "classifyZones ed sz zones (validZones, invalidZones) =
     (validZones @ filter (zoneFits ed sz) zones,
      invalidZones @ map (\<lambda>z. z\<lparr>isInvalid := True\<rparr>) (filter (\<lambda>z. \<not> zoneFits ed sz z) zones))"
  by (induction zones arbitrary: validZones invalidZones) (auto simp: zoneFits_def Let_def)

lemma find_filter_conj: "find P (filter Q xs) = find (\<lambda>x. Q x \<and> P x) xs"
  by (induction xs) auto

lemma find_map_comp: "find P (map f xs) = map_option f (find (\<lambda>x. P (f x)) xs)"
  by (induction xs) auto

lemma containsPointer_flag [simp]:
  "containsPointer x y (z\<lparr>isInvalid := b\<rparr>) = containsPointer x y z"
  by (simp add: containsPointer_def)

lemma zoneFits_flag [simp]: "zoneFits ed sz (z\<lparr>isInvalid := b\<rparr>) = zoneFits ed sz z"
  by (simp add: zoneFits_def)

lemma getDropTarget_dragging:
  assumes inside: "rect_left c \<le> x" "x \<le> rect_right c" "rect_top c \<le> y" "y \<le> rect_bottom c"
    and drag: "draggedSize ed = Some sz"
  shows "getDropTarget ed c zones x y =
           (case find (\<lambda>z. zoneFits ed sz z \<and> containsPointer x y z) zones of
              Some z \<Rightarrow> Some z
            | None \<Rightarrow> map_option (\<lambda>z. z\<lparr>isInvalid := True\<rparr>)
                        (find (\<lambda>z. \<not> zoneFits ed sz z \<and> containsPointer x y z) zones))"
proof -
  have cl: "(if isDraggingFromPanel ed \<and> draggedWidgetSize ed \<noteq> None \<and> draggedWidgetSize ed \<noteq> Some []
             then classifyZones ed (the (draggedWidgetSize ed)) zones ([], [])
             else (case draggedWidget ed of
                     Some w \<Rightarrow> classifyZones ed (widget_size w) zones ([], [])
                   | None \<Rightarrow> (zones, [])))
            = classifyZones ed sz zones ([], [])"
    using drag by (auto simp: draggedSize_def split: option.splits if_splits)
  show ?thesis
    using inside unfolding getDropTarget_def cl
    by (simp add: classifyZones_filter find_filter_conj find_map_comp not_less
          split: option.splits)
qed

text \<open>
  The object literals of the zones that \<^verbatim>\<open>getDropTarget\<close> pushes for a widget section:
  a zone before or behind a widget, and a zone between sections.
\<close>

definition withinSectionZone :: "string \<Rightarrow> nat \<Rightarrow> rat \<Rightarrow> rat \<Rightarrow> rat \<Rightarrow> rat \<Rightarrow> dropZone" where
  "withinSectionZone sid pos t b l r =
     \<lparr>zone_type = WithinSection, zone_sectionId = Some sid, zone_widgetId = None,
      zone_position = pos, zone_top = t, zone_bottom = b, zone_left = l, zone_right = r,
      isRailDropZone = False, isInvalid = False\<rparr>"

definition betweenSectionsZone :: "nat \<Rightarrow> rat \<Rightarrow> rat \<Rightarrow> rat \<Rightarrow> rat \<Rightarrow> dropZone" where
  "betweenSectionsZone pos t b l r =
     \<lparr>zone_type = BetweenSections, zone_sectionId = None, zone_widgetId = None,
      zone_position = pos, zone_top = t, zone_bottom = b, zone_left = l, zone_right = r,
      isRailDropZone = False, isInvalid = False\<rparr>"

text \<open>
  An editor with two widget sections at four columns, while an XS widget is dragged from
  the panel: the first section holds one XS widget and takes another in its row, the second
  holds four and is full.  The list \<open>overlapZones\<close> holds the zones that \<^verbatim>\<open>getDropTarget\<close>
  builds, in its order, when each section's rectangle is that of its row of widgets: the
  first section spans 20 to 1280 px across and 20 to 180 px down, the second lies 20 px
  below it (\<^verbatim>\<open>sectionGap\<close>) and is as high.  A zone before or behind a widget reaches 10 px
  above and below the widget and 15 px to both sides of its edge; the zone below a section
  reaches from 5 px above its bottom to 60 px below it.
\<close>

definition overlapEditor :: editor where
  "overlapEditor =
     \<lparr>sections =
        [WidgetSection ''s_0'' ''New Section'' [newWidget ''w_0'' ''XS''],
         WidgetSection ''s_1'' ''New Section''
           [newWidget ''w_1'' ''XS'', newWidget ''w_2'' ''XS'', newWidget ''w_3'' ''XS'',
            newWidget ''w_4'' ''XS'']],
      offsetWidth = 1300, isDraggingFromPanel = True, draggedWidgetSize = Some ''XS'',
      draggedWidget = None\<rparr>"

definition overlapCanvas :: rect where
  "overlapCanvas = \<lparr>rect_top = 0, rect_bottom = 1000, rect_left = 0, rect_right = 1300\<rparr>"

definition zoneAfterFirst :: dropZone where
  "zoneAfterFirst = withinSectionZone ''s_0'' 1 10 190 1265 1295"

definition zoneBetween :: dropZone where
  "zoneBetween = betweenSectionsZone 1 175 240 20 1280"

definition zoneAfterLast :: dropZone where
  "zoneAfterLast = withinSectionZone ''s_1'' 4 190 370 1265 1295"

definition overlapZones :: "dropZone list" where
  "overlapZones =
     [withinSectionZone ''s_0'' 0 10 190 5 35,
      zoneAfterFirst,
      betweenSectionsZone 0 (- 40) 25 20 1280,
      zoneBetween,
      withinSectionZone ''s_1'' 0 190 370 5 35,
      withinSectionZone ''s_1'' 1 190 370 311 341,
      withinSectionZone ''s_1'' 2 190 370 629 659,
      withinSectionZone ''s_1'' 3 190 370 947 977,
      zoneAfterLast,
      betweenSectionsZone 2 355 420 20 1280]"

lemma overlap_fits:
  "canWidgetFitInSection overlapEditor ''XS'' (Some ''s_0'')"
  "\<not> canWidgetFitInSection overlapEditor ''XS'' (Some ''s_1'')"
  by (simp_all add: overlapEditor_def canWidgetFitInSection_def canWidgetFitInSectionWith_def
        fitSimulation_def getColCountFromWidth_def composer_eval packer_eval)

lemma overlap_dragged: "draggedSize overlapEditor = Some ''XS''"
  by (simp add: draggedSize_def overlapEditor_def)

lemma overlap_zoneFits:
  "zoneFits overlapEditor ''XS'' (withinSectionZone ''s_0'' pos t b l r)"
  "\<not> zoneFits overlapEditor ''XS'' (withinSectionZone ''s_1'' pos t b l r)"
  "zoneFits overlapEditor ''XS'' (betweenSectionsZone pos t b l r)"
  using overlap_fits by (simp_all add: zoneFits_def withinSectionZone_def betweenSectionsZone_def)

lemma overlap_contains:
  "containsPointer x y (withinSectionZone sid pos t b l r) = (l \<le> x \<and> x \<le> r \<and> t \<le> y \<and> y \<le> b)"
  "containsPointer x y (betweenSectionsZone pos t b l r) = (l \<le> x \<and> x \<le> r \<and> t \<le> y \<and> y \<le> b)"
  by (simp_all add: containsPointer_def withinSectionZone_def betweenSectionsZone_def)

lemma overlap_classified:
  "classifyZones overlapEditor ''XS'' overlapZones ([], []) =
     ([withinSectionZone ''s_0'' 0 10 190 5 35, zoneAfterFirst,
       betweenSectionsZone 0 (- 40) 25 20 1280, zoneBetween,
       betweenSectionsZone 2 355 420 20 1280],
      [(withinSectionZone ''s_1'' 0 190 370 5 35)\<lparr>isInvalid := True\<rparr>,
       (withinSectionZone ''s_1'' 1 190 370 311 341)\<lparr>isInvalid := True\<rparr>,
       (withinSectionZone ''s_1'' 2 190 370 629 659)\<lparr>isInvalid := True\<rparr>,
       (withinSectionZone ''s_1'' 3 190 370 947 977)\<lparr>isInvalid := True\<rparr>,
       zoneAfterLast\<lparr>isInvalid := True\<rparr>])"
  using overlap_zoneFits
  by (simp add: classifyZones_filter overlapZones_def zoneAfterFirst_def zoneBetween_def
        zoneAfterLast_def)

text \<open>
  Claim C7, as the specification states it, fails.  The pointer (1270, 190) lies in the
  zone behind the last widget of the full section, which is flagged invalid, and in the
  valid zone between the two sections; it also lies in the zone behind the widget of the
  first section, which is valid and was generated first.  The resolver returns that zone,
  a within-section zone, not the zone between the sections.
\<close>

theorem drop_target_between_counterexample:
  "zoneAfterLast \<in> set overlapZones \<and>
   zone_type zoneAfterLast = WithinSection \<and>
   \<not> canWidgetFitInSection overlapEditor ''XS'' (zone_sectionId zoneAfterLast) \<and>
   containsPointer 1270 190 zoneAfterLast \<and>
   zoneBetween \<in> set overlapZones \<and>
   zone_type zoneBetween = BetweenSections \<and>
   containsPointer 1270 190 zoneBetween \<and>
   getDropTarget overlapEditor overlapCanvas overlapZones 1270 190 = Some zoneAfterFirst \<and>
   zone_type zoneAfterFirst = WithinSection \<and>
   zoneAfterFirst \<noteq> zoneBetween"
proof -
  have a: "\<not> canWidgetFitInSection overlapEditor ''XS'' (zone_sectionId zoneAfterLast)"
    using overlap_fits(2) by (simp add: zoneAfterLast_def withinSectionZone_def)
  have m: "zoneAfterLast \<in> set overlapZones" "zoneBetween \<in> set overlapZones"
    by (simp_all add: overlapZones_def)
  have c: "containsPointer 1270 190 zoneAfterLast" "containsPointer 1270 190 zoneBetween"
    by (simp_all add: overlap_contains zoneAfterLast_def zoneBetween_def)
  have t: "zone_type zoneAfterLast = WithinSection" "zone_type zoneBetween = BetweenSections"
    "zone_type zoneAfterFirst = WithinSection" "zoneAfterFirst \<noteq> zoneBetween"
    by (simp_all add: zoneAfterLast_def zoneBetween_def zoneAfterFirst_def withinSectionZone_def
          betweenSectionsZone_def)
  have d: "isDraggingFromPanel overlapEditor" "draggedWidgetSize overlapEditor = Some ''XS''"
    by (simp_all add: overlapEditor_def)
  have g: "getDropTarget overlapEditor overlapCanvas overlapZones 1270 190 = Some zoneAfterFirst"
    unfolding getDropTarget_def using d
    by (simp add: overlap_classified overlapCanvas_def overlap_contains zoneAfterFirst_def
          zoneBetween_def)
  from a m c t g show ?thesis by simp
qed

text \<open>
  Claim C7, amended.  For a pointer outside the rectangle of the canvas the resolver returns
  null at once, whatever zones contain the pointer.  During a drag from the panel or a
  move of a widget, for a pointer inside the canvas, the resolver tests all valid zones in
  generation order before any invalid zone: it returns the first valid zone that contains
  the pointer, and only when there is none the first invalid zone that contains it, flagged
  \<^verbatim>\<open>isInvalid\<close>, and null when no zone contains it.  Zones between sections are always valid,
  and the zones that the resolver builds carry no flag, so a flagged zone is returned only
  when no valid zone contains the pointer.
  So for a pointer in both an invalid within-section zone and a zone between sections, the
  result is a valid zone that contains the pointer, never the invalid one; it is the zone
  between the sections when no valid zone generated before it contains the pointer.
\<close>

theorem drop_target_priority:
  "(x < rect_left c \<or> x > rect_right c \<or> y < rect_top c \<or> y > rect_bottom c
      \<longrightarrow> getDropTarget ed c zones x y = None) \<and>
   (rect_left c \<le> x \<and> x \<le> rect_right c \<and> rect_top c \<le> y \<and> y \<le> rect_bottom c \<and>
    draggedSize ed = Some sz \<longrightarrow>
      getDropTarget ed c zones x y =
        (case find (\<lambda>z. zoneFits ed sz z \<and> containsPointer x y z) zones of
           Some z \<Rightarrow> Some z
         | None \<Rightarrow> map_option (\<lambda>z. z\<lparr>isInvalid := True\<rparr>)
                     (find (\<lambda>z. \<not> zoneFits ed sz z \<and> containsPointer x y z) zones)) \<and>
      (zi \<in> set zones \<and> zone_type zi = WithinSection \<and>
       \<not> canWidgetFitInSection ed sz (zone_sectionId zi) \<and> containsPointer x y zi \<and>
       zb \<in> set zones \<and> zone_type zb = BetweenSections \<and> containsPointer x y zb
       \<longrightarrow> (\<exists>z. getDropTarget ed c zones x y = Some z \<and> z \<in> set zones \<and>
                zoneFits ed sz z \<and> containsPointer x y z \<and>
                find (\<lambda>z. zoneFits ed sz z \<and> containsPointer x y z) zones = Some z) \<and>
           (find (\<lambda>z. zoneFits ed sz z \<and> containsPointer x y z) zones = Some zb
              \<longrightarrow> getDropTarget ed c zones x y = Some zb)) \<and>
      (getDropTarget ed c zones x y = Some zr \<and> \<not> zoneFits ed sz zr
       \<longrightarrow> isInvalid zr \<and> (\<forall>u \<in> set zones. zoneFits ed sz u \<longrightarrow> \<not> containsPointer x y u)) \<and>
      ((\<forall>u \<in> set zones. \<not> isInvalid u) \<and> getDropTarget ed c zones x y = Some zr \<and> isInvalid zr
       \<longrightarrow> (\<forall>u \<in> set zones. zoneFits ed sz u \<longrightarrow> \<not> containsPointer x y u)) \<and>
      ((\<forall>u \<in> set zones. \<not> containsPointer x y u) \<longrightarrow> getDropTarget ed c zones x y = None))"
  (is "?outside \<and> (?inside \<longrightarrow> ?result)")
proof (rule conjI)
  show ?outside unfolding getDropTarget_def by simp
next
  show "?inside \<longrightarrow> ?result"
  proof (rule impI)
    assume ?inside
    then have inside: "rect_left c \<le> x" "x \<le> rect_right c" "rect_top c \<le> y" "y \<le> rect_bottom c"
      and drag: "draggedSize ed = Some sz"
      by simp_all
    let ?V = "\<lambda>z. zoneFits ed sz z \<and> containsPointer x y z"
    let ?I = "\<lambda>z. \<not> zoneFits ed sz z \<and> containsPointer x y z"
    note eq = getDropTarget_dragging[OF inside drag, of zones]
    have A: "zi \<in> set zones \<and> zone_type zi = WithinSection \<and>
            \<not> canWidgetFitInSection ed sz (zone_sectionId zi) \<and> containsPointer x y zi \<and>
            zb \<in> set zones \<and> zone_type zb = BetweenSections \<and> containsPointer x y zb
            \<longrightarrow> (\<exists>z. getDropTarget ed c zones x y = Some z \<and> z \<in> set zones \<and>
                     zoneFits ed sz z \<and> containsPointer x y z \<and> find ?V zones = Some z) \<and>
                (find ?V zones = Some zb \<longrightarrow> getDropTarget ed c zones x y = Some zb)"
    proof (intro impI conjI)
      assume h: "zi \<in> set zones \<and> zone_type zi = WithinSection \<and>
            \<not> canWidgetFitInSection ed sz (zone_sectionId zi) \<and> containsPointer x y zi \<and>
            zb \<in> set zones \<and> zone_type zb = BetweenSections \<and> containsPointer x y zb"
      then have "?V zb" "zb \<in> set zones" by (simp_all add: zoneFits_def)
      then have "find ?V zones \<noteq> None" by (auto simp: find_None_iff)
      then obtain z where z: "find ?V zones = Some z" by auto
      then have "?V z" "z \<in> set zones" by (auto simp: find_Some_iff)
      with z eq show "\<exists>z. getDropTarget ed c zones x y = Some z \<and> z \<in> set zones \<and>
                     zoneFits ed sz z \<and> containsPointer x y z \<and> find ?V zones = Some z"
        by simp
    next
      assume "find ?V zones = Some zb"
      with eq show "getDropTarget ed c zones x y = Some zb" by simp
    qed
    have B: "getDropTarget ed c zones x y = Some zr \<and> \<not> zoneFits ed sz zr
            \<longrightarrow> isInvalid zr \<and> (\<forall>u \<in> set zones. zoneFits ed sz u \<longrightarrow> \<not> containsPointer x y u)"
    proof (intro impI)
      assume h: "getDropTarget ed c zones x y = Some zr \<and> \<not> zoneFits ed sz zr"
      show "isInvalid zr \<and> (\<forall>u \<in> set zones. zoneFits ed sz u \<longrightarrow> \<not> containsPointer x y u)"
      proof (cases "find ?V zones")
        case (Some z)
        then have "?V z" by (auto simp: find_Some_iff)
        with Some eq h show ?thesis by simp
      next
        case None
        then have nv: "\<forall>u \<in> set zones. zoneFits ed sz u \<longrightarrow> \<not> containsPointer x y u"
          by (auto simp: find_None_iff)
        from None eq h obtain z0 where "zr = z0\<lparr>isInvalid := True\<rparr>"
          by (cases "find ?I zones") auto
        with nv show ?thesis by simp
      qed
    qed
    have C: "(\<forall>u \<in> set zones. \<not> containsPointer x y u) \<longrightarrow> getDropTarget ed c zones x y = None"
    proof
      assume "\<forall>u \<in> set zones. \<not> containsPointer x y u"
      then have "find ?V zones = None" "find ?I zones = None" by (auto simp: find_None_iff)
      with eq show "getDropTarget ed c zones x y = None" by simp
    qed
    have D: "(\<forall>u \<in> set zones. \<not> isInvalid u) \<and> getDropTarget ed c zones x y = Some zr \<and> isInvalid zr
            \<longrightarrow> (\<forall>u \<in> set zones. zoneFits ed sz u \<longrightarrow> \<not> containsPointer x y u)"
    proof (intro impI)
      assume h: "(\<forall>u \<in> set zones. \<not> isInvalid u) \<and> getDropTarget ed c zones x y = Some zr \<and> isInvalid zr"
      show "\<forall>u \<in> set zones. zoneFits ed sz u \<longrightarrow> \<not> containsPointer x y u"
      proof (cases "find ?V zones")
        case (Some z)
        then have "z \<in> set zones" by (auto simp: find_Some_iff)
        with h have "\<not> isInvalid z" by simp
        moreover from Some eq h have "zr = z" by simp
        ultimately show ?thesis using h by simp
      next
        case None
        then show ?thesis by (auto simp: find_None_iff)
      qed
    qed
    from eq A B D C show ?result by blast
  qed
qed

theorem drop_target_priority_witness:
  "getDropTarget overlapEditor overlapCanvas overlapZones 1270 190 = Some zoneAfterFirst \<and>
   getDropTarget overlapEditor overlapCanvas [zoneAfterLast, zoneBetween] 1270 190
     = Some zoneBetween \<and>
   getDropTarget overlapEditor overlapCanvas overlapZones 1270 300
     = Some (zoneAfterLast\<lparr>isInvalid := True\<rparr>) \<and>
   getDropTarget overlapEditor overlapCanvas overlapZones 600 600 = None \<and>
   list_all (\<lambda>u. \<not> isInvalid u) overlapZones \<and>
   betweenSectionsZone 0 (- 40) 25 20 1280 \<in> set overlapZones \<and>
   containsPointer 600 (- 10) (betweenSectionsZone 0 (- 40) 25 20 1280) \<and>
   getDropTarget overlapEditor overlapCanvas overlapZones 600 (- 10) = None"
proof -
  note p = drop_target_priority [where ed = overlapEditor and c = overlapCanvas and sz = "''XS''"]
  note ev = overlapCanvas_def overlapZones_def zoneAfterFirst_def zoneBetween_def zoneAfterLast_def
    overlap_zoneFits overlap_contains overlap_dragged
  have 1: "getDropTarget overlapEditor overlapCanvas overlapZones 1270 190 = Some zoneAfterFirst"
    using p [where x = 1270 and y = 190 and zones = overlapZones] by (simp add: ev)
  have 2: "getDropTarget overlapEditor overlapCanvas [zoneAfterLast, zoneBetween] 1270 190
     = Some zoneBetween"
    using p [where x = 1270 and y = 190 and zones = "[zoneAfterLast, zoneBetween]"]
    by (simp add: ev)
  have 3: "getDropTarget overlapEditor overlapCanvas overlapZones 1270 300
     = Some (zoneAfterLast\<lparr>isInvalid := True\<rparr>)"
    using p [where x = 1270 and y = 300 and zones = overlapZones] by (simp add: ev)
  have 4: "getDropTarget overlapEditor overlapCanvas overlapZones 600 600 = None"
    using p [where x = 600 and y = 600 and zones = overlapZones] by (simp add: ev)
  have 5: "getDropTarget overlapEditor overlapCanvas overlapZones 600 (- 10) = None"
    using p [where x = 600 and y = "- 10" and zones = overlapZones]
    by (simp add: overlapCanvas_def)
  have 6: "betweenSectionsZone 0 (- 40) 25 20 1280 \<in> set overlapZones"
    "containsPointer 600 (- 10) (betweenSectionsZone 0 (- 40) 25 20 1280)"
    by (simp_all add: overlapZones_def overlap_contains)
  have 7: "list_all (\<lambda>u. \<not> isInvalid u) overlapZones"
    by (simp add: overlapZones_def zoneAfterFirst_def zoneBetween_def zoneAfterLast_def
          withinSectionZone_def betweenSectionsZone_def)
  from 1 2 3 4 5 6 7 show ?thesis by simp
qed

section \<open>Properties of the layout functions over the store\<close>

subsection \<open>Frame of the composer\<close>

text \<open>
  Everything stored below an address \<open>b\<close> is the same in both stores.  With \<open>b\<close> the
  limit of the store before a call, this says that the call changed no array and no object
  that existed before it.
\<close>

definition unchangedBelow :: "nat \<Rightarrow> store \<Rightarrow> store \<Rightarrow> bool" where
  "unchangedBelow b s s' =
     (\<forall>a < b. itemArrays s' a = itemArrays s a \<and> cellObjs s' a = cellObjs s a \<and>
              cellArrays s' a = cellArrays s a \<and> sectionObjs s' a = sectionObjs s a \<and>
              groupObjs s' a = groupObjs s a)"

lemma unchangedBelow_refl: "unchangedBelow b s s"
  by (simp add: unchangedBelow_def)

lemma unchangedBelow_trans:
  "unchangedBelow b s s' \<Longrightarrow> unchangedBelow b s' s'' \<Longrightarrow> unchangedBelow b s s''"
  by (simp add: unchangedBelow_def)

lemma unchangedBelow_mono: "unchangedBelow b s s' \<Longrightarrow> b' \<le> b \<Longrightarrow> unchangedBelow b' s s'"
  by (simp add: unchangedBelow_def)

lemma alloc_frame:
  "b \<le> limit s \<Longrightarrow> unchangedBelow b s (snd (allocItems xs s))"
  "b \<le> limit s \<Longrightarrow> unchangedBelow b s (snd (allocCell c s))"
  "b \<le> limit s \<Longrightarrow> unchangedBelow b s (snd (allocCells cs s))"
  by (simp_all add: unchangedBelow_def allocItems_def allocCell_def allocCells_def)

lemma alloc_limit:
  "fst (allocItems xs s) = limit s" "limit (snd (allocItems xs s)) = limit s + 1"
  "fst (allocCell c s) = limit s" "limit (snd (allocCell c s)) = limit s + 1"
  "fst (allocCells cs s) = limit s" "limit (snd (allocCells cs s)) = limit s + 1"
  by (simp_all add: allocItems_def allocCell_def allocCells_def)

lemma write_frame:
  "b \<le> a \<Longrightarrow> unchangedBelow b s (spliceItems a start n ins s)"
  "b \<le> a \<Longrightarrow> unchangedBelow b s (pushCell a c s)"
  "b \<le> a \<Longrightarrow> unchangedBelow b s (setSpan a v s)"
  "b \<le> a \<Longrightarrow> unchangedBelow b s (setDistributeEqually a f s)"
  by (simp_all add: unchangedBelow_def spliceItems_def pushCell_def setSpan_def
        setDistributeEqually_def)

lemma write_limit:
  "limit (spliceItems a start n ins s) = limit s"
  "limit (pushCell a c s) = limit s"
  "limit (setSpan a v s) = limit s"
  "limit (setDistributeEqually a f s) = limit s"
  by (simp_all add: spliceItems_def pushCell_def setSpan_def setDistributeEqually_def)

lemma seedStep_st_frame:
  assumes "b \<le> items"
  shows "unchangedBelow b s (fst (seedStep_st s items colCount i w)) \<and>
         limit (fst (seedStep_st s items colCount i w)) = limit s"
  using assms
  by (auto simp add: seedStep_st_def Let_def write_limit split: prod.splits
        intro!: write_frame unchangedBelow_refl intro: unchangedBelow_trans)

lemma rowBlockLoop_st_frame:
  "b \<le> items \<Longrightarrow>
     unchangedBelow b s (rowBlockLoop_st s items colCount i) \<and>
     limit (rowBlockLoop_st s items colCount i) = limit s"
proof (induction s items colCount i rule: rowBlockLoop_st.induct)
  case (1 s items colCount i)
  show ?case
  proof (cases "i < length (itemArrays s items)")
    case False
    then show ?thesis by (subst (1 2) rowBlockLoop_st.simps) (simp add: unchangedBelow_refl)
  next
    case il: True
    show ?thesis
    proof (cases "itemArrays s items ! i")
      case (RowBlock rb)
      have "rowBlockLoop_st s items colCount i = rowBlockLoop_st s items colCount (i + 1)"
        using il RowBlock by (subst rowBlockLoop_st.simps) simp
      with "1.IH"(3)[OF il RowBlock "1.prems"] show ?thesis by simp
    next
      case (Widget w)
      show ?thesis
      proof (cases "effectiveSpan w colCount \<noteq> 3")
        case True
        have "rowBlockLoop_st s items colCount i = rowBlockLoop_st s items colCount (i + 1)"
          using il Widget True by (subst rowBlockLoop_st.simps) simp
        with "1.IH"(1)[OF il Widget True "1.prems"] show ?thesis by simp
      next
        case False
        obtain s' i' where st: "seedStep_st s items colCount i w = (s', i')"
          by (cases "seedStep_st s items colCount i w") auto
        have eq: "rowBlockLoop_st s items colCount i = rowBlockLoop_st s' items colCount (i' + 1)"
          using il Widget False st by (subst rowBlockLoop_st.simps) simp
        from seedStep_st_frame[OF "1.prems", of s colCount i w] st
        have a: "unchangedBelow b s s'" "limit s' = limit s" by simp_all
        from "1.IH"(2)[OF il Widget False st[symmetric] "1.prems"]
        have c: "unchangedBelow b s' (rowBlockLoop_st s' items colCount (i' + 1))"
          "limit (rowBlockLoop_st s' items colCount (i' + 1)) = limit s'" by simp_all
        from a c eq show ?thesis by (auto intro: unchangedBelow_trans)
      qed
    qed
  qed
qed

lemma rowBlockLoop_st_items:
  "itemArrays (rowBlockLoop_st s items colCount i) items
     = rowBlockLoop (itemArrays s items) colCount i"
proof (induction s items colCount i rule: rowBlockLoop_st.induct)
  case (1 s items colCount i)
  show ?case
  proof (cases "i < length (itemArrays s items)")
    case False
    then show ?thesis
      by (subst rowBlockLoop_st.simps, subst rowBlockLoop.simps) simp
  next
    case il: True
    show ?thesis
    proof (cases "itemArrays s items ! i")
      case (RowBlock rb)
      have "rowBlockLoop_st s items colCount i = rowBlockLoop_st s items colCount (i + 1)"
        using il RowBlock by (subst rowBlockLoop_st.simps) simp
      moreover have "rowBlockLoop (itemArrays s items) colCount i
                       = rowBlockLoop (itemArrays s items) colCount (i + 1)"
        using il RowBlock by (subst rowBlockLoop.simps) simp
      ultimately show ?thesis using "1.IH"(3)[OF il RowBlock] by simp
    next
      case (Widget w)
      show ?thesis
      proof (cases "effectiveSpan w colCount \<noteq> 3")
        case True
        have "rowBlockLoop_st s items colCount i = rowBlockLoop_st s items colCount (i + 1)"
          using il Widget True by (subst rowBlockLoop_st.simps) simp
        moreover have "rowBlockLoop (itemArrays s items) colCount i
                         = rowBlockLoop (itemArrays s items) colCount (i + 1)"
          using il Widget True by (subst rowBlockLoop.simps) simp
        ultimately show ?thesis using "1.IH"(1)[OF il Widget True] by simp
      next
        case False
        obtain s' i' where st: "seedStep_st s items colCount i w = (s', i')"
          by (cases "seedStep_st s items colCount i w") auto
        obtain xs' j' where p: "seedStep (itemArrays s items) colCount i w = (xs', j')"
          by (cases "seedStep (itemArrays s items) colCount i w") auto
        from seedStep_st_items[of s items colCount i w] st p
        have r: "itemArrays s' items = xs'" "i' = j'" by simp_all
        have "rowBlockLoop_st s items colCount i = rowBlockLoop_st s' items colCount (i' + 1)"
          using il Widget False st by (subst rowBlockLoop_st.simps) simp
        moreover have "rowBlockLoop (itemArrays s items) colCount i
                         = rowBlockLoop xs' colCount (j' + 1)"
          using il Widget False p by (subst rowBlockLoop.simps) simp
        ultimately show ?thesis using "1.IH"(2)[OF il Widget False st[symmetric]] r by simp
      qed
    qed
  qed
qed

lemma transformRowBlocks_st_frame:
  "unchangedBelow (limit s) s (snd (transformRowBlocks_st s a colCount)) \<and>
   fst (transformRowBlocks_st s a colCount) = limit s \<and>
   limit (snd (transformRowBlocks_st s a colCount)) = limit s + 1 \<and>
   itemArrays (snd (transformRowBlocks_st s a colCount)) (fst (transformRowBlocks_st s a colCount))
     = transformRowBlocks (itemArrays s a) colCount"
proof (cases "colCount = 4")
  case False
  then show ?thesis
    by (simp add: transformRowBlocks_st_def transformRowBlocks_def alloc_frame alloc_limit)
       (simp add: allocItems_def)
next
  case True
  obtain items s1 where al: "allocItems (itemArrays s a) s = (items, s1)"
    by (cases "allocItems (itemArrays s a) s") auto
  then have i: "items = limit s" "limit s1 = limit s + 1" "itemArrays s1 items = itemArrays s a"
    and f1: "unchangedBelow (limit s) s s1"
    using alloc_limit(1,2)[of "itemArrays s a" s] alloc_frame(1)[of "limit s" s "itemArrays s a"]
    by (auto simp: allocItems_def)
  have b: "limit s \<le> items" using i by simp
  from rowBlockLoop_st_frame[OF b, of s1 colCount 0] rowBlockLoop_st_items[of s1 items colCount 0]
  show ?thesis using True al i f1
    by (auto simp add: transformRowBlocks_st_def transformRowBlocks_def intro: unchangedBelow_trans)
qed

subsection \<open>Frame of the packer\<close>

text \<open>
  What the packer's loop keeps true: \<^verbatim>\<open>currentRow\<close> and the cells it holds were made during
  the call.
\<close>

definition packFrame :: "nat \<Rightarrow> store \<times> nat list \<times> nat \<times> int \<Rightarrow> bool" where
  "packFrame b st =
     (case st of (s, rows, currentRow, used) \<Rightarrow>
        b \<le> currentRow \<and> b \<le> limit s \<and> list_all (\<lambda>c. b \<le> c) (cellArrays s currentRow))"

lemma markAll_frame:
  "list_all (\<lambda>c. b \<le> c) cs \<Longrightarrow>
     unchangedBelow b s (markAll cs s) \<and> limit (markAll cs s) = limit s \<and>
     cellArrays (markAll cs s) = cellArrays s"
proof (induction cs arbitrary: s)
  case Nil
  then show ?case by (simp add: unchangedBelow_refl)
next
  case (Cons c cs)
  then have c: "b \<le> c" and cs: "list_all (\<lambda>c. b \<le> c) cs" by simp_all
  let ?s = "setDistributeEqually c True s"
  have "unchangedBelow b s ?s" "limit ?s = limit s" "cellArrays ?s = cellArrays s"
    using c by (simp_all add: write_frame write_limit) (simp add: setDistributeEqually_def)
  with Cons.IH[OF cs, of ?s] show ?case by (auto intro: unchangedBelow_trans)
qed

lemma expandEach_frame:
  "list_all (\<lambda>c. b \<le> c) cs \<Longrightarrow>
     unchangedBelow b s (expandEach cc q lo idx cs s) \<and>
     limit (expandEach cc q lo idx cs s) = limit s \<and>
     cellArrays (expandEach cc q lo idx cs s) = cellArrays s"
proof (induction cs arbitrary: s idx)
  case Nil
  then show ?case by (simp add: unchangedBelow_refl)
next
  case (Cons c cs)
  then have c: "b \<le> c" and cs: "list_all (\<lambda>c. b \<le> c) cs" by simp_all
  let ?s = "setSpan c (min cc (span (cellObjs s c) + (q + (if int idx < lo then 1 else 0)))) s"
  have "unchangedBelow b s ?s" "limit ?s = limit s" "cellArrays ?s = cellArrays s"
    using c by (simp_all add: write_frame write_limit) (simp add: setSpan_def)
  with Cons.IH[OF cs, of ?s "Suc idx"] show ?case
    by (auto simp: Let_def intro: unchangedBelow_trans)
qed

lemma flush_st_frame:
  assumes "packFrame b st"
  shows "unchangedBelow b (fst st) (fst (flush_st cc st)) \<and> packFrame b (flush_st cc st) \<and>
         limit (fst st) \<le> limit (fst (flush_st cc st))"
proof -
  obtain s rows cr used where st: "st = (s, rows, cr, used)" by (cases st) auto
  from assms st have inv: "b \<le> cr" "b \<le> limit s" "list_all (\<lambda>c. b \<le> c) (cellArrays s cr)"
    by (simp_all add: packFrame_def)
  show ?thesis
  proof (cases "length (cellArrays s cr) = 0")
    case True
    with st assms show ?thesis by (simp add: flush_st_def unchangedBelow_refl)
  next
    case False
    define s1 where "s1 =
      (let remaining = cc - used in
                 (if remaining > 0 then
                    (let expandableWidgets =
                           filter (\<lambda>c. \<not> isRowBlock (item (cellObjs s c))) (cellArrays s cr)
                     in if length expandableWidgets > 0 then
                          (let allAreMinSpan =
                                 list_all (\<lambda>c. span (cellObjs s c) = 1) expandableWidgets
                           in if allAreMinSpan \<and> remaining < int (length expandableWidgets)
                              then markAll (cellArrays s cr) s
                              else (let extraPerWidget = remaining div int (length expandableWidgets);
                                        leftover = remaining mod int (length expandableWidgets)
                                    in expandEach cc extraPerWidget leftover 0
                                         expandableWidgets s))
                        else s)
                  else s))"
    have fl: "list_all (\<lambda>c. b \<le> c) (filter (\<lambda>c. \<not> isRowBlock (item (cellObjs s c))) (cellArrays s cr))"
      using inv(3) by (simp add: list_all_iff)
    have s1: "unchangedBelow b s s1 \<and> limit s1 = limit s"
      unfolding s1_def Let_def
      using markAll_frame[OF inv(3), of s] expandEach_frame[OF fl, of s cc]
      by (auto simp: unchangedBelow_refl)
    have f: "flush_st cc st = (snd (allocCells [] s1), rows @ [cr], fst (allocCells [] s1), 0)"
      using False st by (simp add: flush_st_def s1_def Let_def split: prod.splits)
    have a: "unchangedBelow b s1 (snd (allocCells [] s1))"
      using alloc_frame(3)[of b s1 "[]"] s1 inv(2) by simp
    have "packFrame b (snd (allocCells [] s1), rows @ [cr], fst (allocCells [] s1), 0)"
      using s1 inv(2) by (simp add: packFrame_def allocCells_def)
    with f a s1 st show ?thesis
      by (auto simp: alloc_limit intro: unchangedBelow_trans)
  qed
qed

lemma packStep_st_frame:
  assumes "packFrame b st"
  shows "unchangedBelow b (fst st) (fst (packStep_st cc it st)) \<and> packFrame b (packStep_st cc it st)"
proof -
  obtain s1 rows1 cr1 used1 where f: "flush_st cc st = (s1, rows1, cr1, used1)"
    by (cases "flush_st cc st") auto
  from flush_st_frame[OF assms, of cc] f
  have f1: "unchangedBelow b (fst st) s1" "packFrame b (s1, rows1, cr1, used1)" by simp_all
  then have i1: "b \<le> cr1" "b \<le> limit s1" "list_all (\<lambda>c. b \<le> c) (cellArrays s1 cr1)"
    by (simp_all add: packFrame_def)
  obtain s rows cr used where st: "st = (s, rows, cr, used)" by (cases st) auto
  from assms st have i0: "b \<le> cr" "b \<le> limit s" "list_all (\<lambda>c. b \<le> c) (cellArrays s cr)"
    by (simp_all add: packFrame_def)
  have full: "\<And>c. unchangedBelow b (fst st)
                 (snd (allocCells [limit s1] (snd (allocCell c s1)))) \<and>
               packFrame b (snd (allocCells [limit s1] (snd (allocCell c s1))), rows1 @ [limit s1 + 1], cr1, used1)"
    using f1(1) i1
    by (auto simp: packFrame_def unchangedBelow_def allocCell_def allocCells_def list_all_iff)
  have add: "\<And>c s0 cr0 rows0 u0. b \<le> cr0 \<Longrightarrow> b \<le> limit s0 \<Longrightarrow> list_all (\<lambda>c. b \<le> c) (cellArrays s0 cr0)
               \<Longrightarrow> unchangedBelow b (fst st) s0
               \<Longrightarrow> unchangedBelow b (fst st) (pushCell cr0 (limit s0) (snd (allocCell c s0))) \<and>
                   packFrame b (pushCell cr0 (limit s0) (snd (allocCell c s0)), rows0, cr0, u0)"
    by (auto simp: packFrame_def unchangedBelow_def allocCell_def pushCell_def list_all_iff)
  show ?thesis
  proof (cases "itemSpan it cc \<ge> cc")
    case True
    then show ?thesis using f full
      by (simp add: packStep_st_def Let_def alloc_limit split: prod.splits)
         (simp add: allocCell_def allocCells_def)
  next
    case False
    show ?thesis
    proof (cases "used + itemSpan it cc > cc")
      case True
      with False f st add[OF i1 f1(1)] show ?thesis
        by (simp add: packStep_st_def Let_def split: prod.splits) (simp add: allocCell_def)
    next
      case fits: False
      have "unchangedBelow b (fst st) s" using st by (simp add: unchangedBelow_refl)
      with False fits st add[OF i0] show ?thesis
        by (simp add: packStep_st_def Let_def split: prod.splits) (simp add: allocCell_def)
    qed
  qed
qed

lemma packLoop_st_frame:
  "packFrame b st \<Longrightarrow>
     unchangedBelow b (fst st) (fst (packLoop_st cc items k st)) \<and>
     packFrame b (packLoop_st cc items k st)"
proof (induction cc items k st rule: packLoop_st.induct)
  case (1 cc items k st)
  show ?case
  proof (cases "k < length (itemArrays (fst st) items)")
    case False
    then show ?thesis using "1.prems"
      by (subst (1 2) packLoop_st.simps) (simp add: unchangedBelow_refl)
  next
    case True
    let ?st = "packStep_st cc (itemArrays (fst st) items ! k) st"
    have eq: "packLoop_st cc items k st = packLoop_st cc items (k + 1) ?st"
      using True by (subst packLoop_st.simps) simp
    from packStep_st_frame[OF "1.prems", of cc "itemArrays (fst st) items ! k"]
    have a: "unchangedBelow b (fst st) (fst ?st)" "packFrame b ?st" by simp_all
    from "1.IH"[OF True a(2)] a(1) eq show ?thesis by (auto intro: unchangedBelow_trans)
  qed
qed

lemma packRows_st_frame:
  "unchangedBelow (limit s) s (snd (packRows_st s items cc))"
proof -
  let ?s0 = "snd (allocCells [] s)"
  let ?st0 = "(?s0, [], limit s, 0 :: int)"
  have a: "unchangedBelow (limit s) s ?s0" by (simp add: alloc_frame)
  have inv: "packFrame (limit s) ?st0" by (simp add: packFrame_def allocCells_def)
  from packLoop_st_frame[OF inv, of cc items 0]
  have l: "unchangedBelow (limit s) ?s0 (fst (packLoop_st cc items 0 ?st0))"
    "packFrame (limit s) (packLoop_st cc items 0 ?st0)" by simp_all
  from flush_st_frame[OF l(2), of cc]
  have f: "unchangedBelow (limit s) (fst (packLoop_st cc items 0 ?st0))
             (fst (flush_st cc (packLoop_st cc items 0 ?st0)))" by simp
  have "snd (packRows_st s items cc) = fst (flush_st cc (packLoop_st cc items 0 ?st0))"
    by (auto simp add: packRows_st_def allocCells_def split: prod.splits)
  with a l(1) f show ?thesis by (auto intro: unchangedBelow_trans)
qed

subsection \<open>The packer over the store computes the rows of the value model\<close>

text \<open>
  The value of a row in a store, the state of the value model that a state of the packer
  stands for, and the shape of the store that the refinement needs: the cells of
  \<^verbatim>\<open>currentRow\<close> are distinct and shared with no emitted row.
\<close>

definition rowOf :: "store \<Rightarrow> nat \<Rightarrow> row" where
  "rowOf s r = \<lparr>cells = map (cellObjs s) (cellArrays s r)\<rparr>"

definition packAbs :: "store \<times> nat list \<times> nat \<times> int \<Rightarrow> row list \<times> cell list \<times> int" where
  "packAbs st =
     (case st of (s, rows, currentRow, used) \<Rightarrow>
        (map (rowOf s) rows, map (cellObjs s) (cellArrays s currentRow), used))"

definition packWf :: "store \<times> nat list \<times> nat \<times> int \<Rightarrow> bool" where
  "packWf st =
     (case st of (s, rows, currentRow, used) \<Rightarrow>
        currentRow < limit s \<and> currentRow \<notin> set rows \<and>
        list_all (\<lambda>r. r < limit s \<and> list_all (\<lambda>c. c < limit s) (cellArrays s r)) rows \<and>
        list_all (\<lambda>c. c < limit s) (cellArrays s currentRow) \<and>
        distinct (cellArrays s currentRow) \<and>
        list_all (\<lambda>r. set (cellArrays s r) \<inter> set (cellArrays s currentRow) = {}) rows)"

lemma markAll_cellObjs:
  "cellObjs (markAll cs s) c =
     (if c \<in> set cs then (cellObjs s c)\<lparr>distributeEqually := True\<rparr> else cellObjs s c)"
  by (induction cs arbitrary: s) (auto simp: setDistributeEqually_def)

lemma expandEach_other:
  "c \<notin> set cs \<Longrightarrow> cellObjs (expandEach cc q lo idx cs s) c = cellObjs s c"
  by (induction cs arbitrary: s idx) (auto simp: setSpan_def Let_def)

lemma expandEach_refines:
  "distinct rs \<Longrightarrow>
     map (cellObjs (expandEach cc q lo idx
                      (filter (\<lambda>c. \<not> isRowBlock (item (cellObjs s c))) rs) s)) rs
       = expandCells cc q lo idx (map (cellObjs s) rs)"
proof (induction rs arbitrary: s idx)
  case Nil
  then show ?case by simp
next
  case (Cons c rs)
  then have nin: "c \<notin> set rs" and d: "distinct rs" by simp_all
  let ?P = "\<lambda>s c. \<not> isRowBlock (item (cellObjs s c))"
  show ?case
  proof (cases "isRowBlock (item (cellObjs s c))")
    case True
    have "c \<notin> set (filter (?P s) rs)" using nin by simp
    then have "cellObjs (expandEach cc q lo idx (filter (?P s) rs) s) c = cellObjs s c"
      by (rule expandEach_other)
    with True Cons.IH[OF d, where s = s and idx = idx] show ?thesis by simp
  next
    case False
    let ?v = "min cc (span (cellObjs s c) + (q + (if int idx < lo then 1 else 0)))"
    let ?s1 = "setSpan c ?v s"
    have same: "\<And>x. x \<in> set rs \<Longrightarrow> cellObjs ?s1 x = cellObjs s x"
      using nin by (auto simp: setSpan_def)
    have fil: "filter (?P ?s1) rs = filter (?P s) rs"
      using same by (intro filter_cong) auto
    have mp: "map (cellObjs ?s1) rs = map (cellObjs s) rs"
      using same by (intro map_cong) auto
    have "c \<notin> set (filter (?P s) rs)" using nin by simp
    then have hd: "cellObjs (expandEach cc q lo (Suc idx) (filter (?P s) rs) ?s1) c = cellObjs ?s1 c"
      by (rule expandEach_other)
    have tl: "map (cellObjs (expandEach cc q lo (Suc idx) (filter (?P s) rs) ?s1)) rs
                = expandCells cc q lo (Suc idx) (map (cellObjs s) rs)"
      using Cons.IH[OF d, where s = ?s1 and idx = "Suc idx"] fil mp by simp
    show ?thesis using False hd tl by (simp add: Let_def setSpan_def)
  qed
qed

lemma flush_st_refines:
  assumes wf: "packWf st"
  shows "packAbs (flush_st cc st) = flush cc (packAbs st) \<and> packWf (flush_st cc st)"
proof -
  obtain s rows cr used where st: "st = (s, rows, cr, used)" by (cases st) auto
  let ?rs = "cellArrays s cr"
  from wf st have w: "cr < limit s" "cr \<notin> set rows"
    "list_all (\<lambda>r. r < limit s \<and> list_all (\<lambda>c. c < limit s) (cellArrays s r)) rows"
    "list_all (\<lambda>c. c < limit s) ?rs" "distinct ?rs"
    "list_all (\<lambda>r. set (cellArrays s r) \<inter> set ?rs = {}) rows"
    by (simp_all add: packWf_def)
  show ?thesis
  proof (cases "length ?rs = 0")
    case True
    with st wf show ?thesis by (simp add: flush_st_def flush_def packAbs_def)
  next
    case False
    let ?P = "\<lambda>c. \<not> isRowBlock (item (cellObjs s c))"
    define s1 where "s1 =
      (let remaining = cc - used in
                 (if remaining > 0 then
                    (let expandableWidgets = filter ?P ?rs
                     in if length expandableWidgets > 0 then
                          (let allAreMinSpan =
                                 list_all (\<lambda>c. span (cellObjs s c) = 1) expandableWidgets
                           in if allAreMinSpan \<and> remaining < int (length expandableWidgets)
                              then markAll ?rs s
                              else (let extraPerWidget = remaining div int (length expandableWidgets);
                                        leftover = remaining mod int (length expandableWidgets)
                                    in expandEach cc extraPerWidget leftover 0
                                         expandableWidgets s))
                        else s)
                  else s))"
    have f: "flush_st cc st = (snd (allocCells [] s1), rows @ [cr], fst (allocCells [] s1), 0)"
      using False st by (simp add: flush_st_def s1_def Let_def split: prod.splits)
    have fm: "filter (\<lambda>c. \<not> isRowBlock (item c)) (map (cellObjs s) ?rs) = map (cellObjs s) (filter ?P ?rs)"
      by (simp add: filter_map o_def)
    have la: "list_all (\<lambda>c. span c = 1) (map (cellObjs s) (filter ?P ?rs))
                = list_all (\<lambda>c. span (cellObjs s c) = 1) (filter ?P ?rs)"
      by (simp add: list_all_iff)
    have keep: "cellArrays s1 = cellArrays s \<and> limit s1 = limit s"
      unfolding s1_def Let_def
      using markAll_frame[of 0 ?rs s] expandEach_frame[of 0 "filter ?P ?rs" s cc]
      by (auto simp: list_all_iff)
    have cur: "map (cellObjs s1) ?rs = flushCells cc (map (cellObjs s) ?rs) used"
    proof (cases "cc - used > 0 \<and> length (filter ?P ?rs) > 0")
      case False
      then have "s1 = s" by (auto simp: s1_def Let_def)
      moreover from False have "flushCells cc (map (cellObjs s) ?rs) used = map (cellObjs s) ?rs"
        by (auto simp: flushCells_def Let_def fm)
      ultimately show ?thesis by simp
    next
      case pos: True
      show ?thesis
      proof (cases "list_all (\<lambda>c. span (cellObjs s c) = 1) (filter ?P ?rs)
                      \<and> cc - used < int (length (filter ?P ?rs))")
        case True
        then have "s1 = markAll ?rs s" using pos by (simp add: s1_def Let_def)
        moreover have "flushCells cc (map (cellObjs s) ?rs) used
                         = map (\<lambda>c. c\<lparr>distributeEqually := True\<rparr>) (map (cellObjs s) ?rs)"
          using pos True by (simp add: flushCells_def Let_def fm la)
        ultimately show ?thesis by (simp add: markAll_cellObjs)
      next
        case False
        let ?n = "int (length (filter ?P ?rs))"
        have "s1 = expandEach cc ((cc - used) div ?n) ((cc - used) mod ?n) 0 (filter ?P ?rs) s"
          using pos False by (auto simp add: s1_def Let_def)
        moreover have "flushCells cc (map (cellObjs s) ?rs) used
                         = expandCells cc ((cc - used) div ?n) ((cc - used) mod ?n) 0
                             (map (cellObjs s) ?rs)"
          using pos False by (auto simp add: flushCells_def Let_def fm la)
        ultimately show ?thesis using expandEach_refines[OF w(5)] by simp
      qed
    qed
    have others: "\<And>c. c \<notin> set ?rs \<Longrightarrow> cellObjs s1 c = cellObjs s c"
    proof -
      fix c assume c: "c \<notin> set ?rs"
      then have "c \<notin> set (filter ?P ?rs)" by simp
      then show "cellObjs s1 c = cellObjs s c"
        using c unfolding s1_def Let_def
        by (auto simp: markAll_cellObjs expandEach_other)
    qed
    have rows_same: "\<And>r. r \<in> set rows \<Longrightarrow> rowOf s1 r = rowOf s r"
    proof -
      fix r assume r: "r \<in> set rows"
      with w(6) have "set (cellArrays s r) \<inter> set ?rs = {}" by (simp add: list_all_iff)
      then have "\<And>c. c \<in> set (cellArrays s r) \<Longrightarrow> cellObjs s1 c = cellObjs s c"
        using others by blast
      then show "rowOf s1 r = rowOf s r" using keep by (simp add: rowOf_def)
    qed
    let ?s2 = "snd (allocCells [] s1)"
    have s2: "cellObjs ?s2 = cellObjs s1" "limit ?s2 = limit s + 1"
      "cellArrays ?s2 = (cellArrays s)(limit s := [])" "fst (allocCells [] s1) = limit s"
      using keep by (simp_all add: allocCells_def)
    have lt: "\<And>r. r \<in> set rows \<Longrightarrow> r < limit s" using w(3) by (simp add: list_all_iff)
    have abs_rows: "map (rowOf ?s2) (rows @ [cr])
                      = map (rowOf s) rows @ [\<lparr>cells = flushCells cc (map (cellObjs s) ?rs) used\<rparr>]"
    proof -
      have "\<And>r. r \<in> set rows \<Longrightarrow> rowOf ?s2 r = rowOf s r"
      proof -
        fix r assume r: "r \<in> set rows"
        then have "r \<noteq> limit s" using lt by auto
        then have "rowOf ?s2 r = rowOf s1 r" using s2 keep by (simp add: rowOf_def)
        with rows_same[OF r] show "rowOf ?s2 r = rowOf s r" by simp
      qed
      then have a: "map (rowOf ?s2) rows = map (rowOf s) rows" by (intro map_cong) auto
      have "cr \<noteq> limit s" using w(1) by simp
      then have "rowOf ?s2 cr = \<lparr>cells = map (cellObjs s1) ?rs\<rparr>" using s2 by (simp add: rowOf_def)
      with a cur show ?thesis by simp
    qed
    have abs: "packAbs (flush_st cc st) = flush cc (packAbs st)"
      using f st False abs_rows s2 by (simp add: packAbs_def flush_def)
    have wf': "packWf (flush_st cc st)"
    proof -
      have "list_all (\<lambda>r. r < limit ?s2 \<and> list_all (\<lambda>c. c < limit ?s2) (cellArrays ?s2 r)) (rows @ [cr])"
        using w(1,3,4) s2 lt by (auto simp: list_all_iff intro: less_SucI)
      moreover have "limit s \<notin> set (rows @ [cr])" using lt w(1) by auto
      ultimately show ?thesis using f s2 by (simp add: packWf_def list_all_iff)
    qed
    from abs wf' show ?thesis by simp
  qed
qed

lemma packWf_full_row:
  assumes wf: "packWf (s1, rows1, cr1, used1)"
  shows "packAbs (snd (allocCells [limit s1] (snd (allocCell c s1))), rows1 @ [limit s1 + 1], cr1, used1)
           = (fst (packAbs (s1, rows1, cr1, used1)) @ [\<lparr>cells = [c]\<rparr>],
              fst (snd (packAbs (s1, rows1, cr1, used1))), used1) \<and>
         packWf (snd (allocCells [limit s1] (snd (allocCell c s1))), rows1 @ [limit s1 + 1], cr1, used1)"
proof -
  let ?s3 = "snd (allocCells [limit s1] (snd (allocCell c s1)))"
  from wf have w: "cr1 < limit s1" "cr1 \<notin> set rows1"
    "\<forall>r \<in> set rows1. r < limit s1 \<and> (\<forall>c \<in> set (cellArrays s1 r). c < limit s1)"
    "\<forall>c \<in> set (cellArrays s1 cr1). c < limit s1" "distinct (cellArrays s1 cr1)"
    "\<forall>r \<in> set rows1. set (cellArrays s1 r) \<inter> set (cellArrays s1 cr1) = {}"
    by (simp_all add: packWf_def list_all_iff)
  have s3: "cellObjs ?s3 = (cellObjs s1)(limit s1 := c)"
    "cellArrays ?s3 = (cellArrays s1)(limit s1 + 1 := [limit s1])" "limit ?s3 = limit s1 + 2"
    by (simp_all add: allocCell_def allocCells_def)
  have rows: "\<And>r. r \<in> set rows1 \<Longrightarrow> rowOf ?s3 r = rowOf s1 r"
    using w(3) s3 by (auto simp: rowOf_def)
  then have a: "map (rowOf ?s3) rows1 = map (rowOf s1) rows1" by (intro map_cong) auto
  have b: "rowOf ?s3 (limit s1 + 1) = \<lparr>cells = [c]\<rparr>" using s3 by (simp add: rowOf_def)
  have cu: "map (cellObjs ?s3) (cellArrays ?s3 cr1) = map (cellObjs s1) (cellArrays s1 cr1)"
    using w(1,4) s3 by auto
  have abs: "packAbs (?s3, rows1 @ [limit s1 + 1], cr1, used1)
           = (fst (packAbs (s1, rows1, cr1, used1)) @ [\<lparr>cells = [c]\<rparr>],
              fst (snd (packAbs (s1, rows1, cr1, used1))), used1)"
    using a b cu by (simp add: packAbs_def)
  have wf': "packWf (?s3, rows1 @ [limit s1 + 1], cr1, used1)"
    using w s3 by (auto simp: packWf_def list_all_iff intro: less_SucI)
  from abs wf' show ?thesis by simp
qed

lemma packWf_push:
  assumes wf: "packWf (s1, rows1, cr1, used1)"
  shows "packAbs (pushCell cr1 (limit s1) (snd (allocCell c s1)), rows1, cr1, u)
           = (fst (packAbs (s1, rows1, cr1, used1)),
              fst (snd (packAbs (s1, rows1, cr1, used1))) @ [c], u) \<and>
         packWf (pushCell cr1 (limit s1) (snd (allocCell c s1)), rows1, cr1, u)"
proof -
  let ?s3 = "pushCell cr1 (limit s1) (snd (allocCell c s1))"
  from wf have w: "cr1 < limit s1" "cr1 \<notin> set rows1"
    "\<forall>r \<in> set rows1. r < limit s1 \<and> (\<forall>c \<in> set (cellArrays s1 r). c < limit s1)"
    "\<forall>c \<in> set (cellArrays s1 cr1). c < limit s1" "distinct (cellArrays s1 cr1)"
    "\<forall>r \<in> set rows1. set (cellArrays s1 r) \<inter> set (cellArrays s1 cr1) = {}"
    by (simp_all add: packWf_def list_all_iff)
  have s3: "cellObjs ?s3 = (cellObjs s1)(limit s1 := c)"
    "cellArrays ?s3 = (cellArrays s1)(cr1 := cellArrays s1 cr1 @ [limit s1])" "limit ?s3 = limit s1 + 1"
    by (simp_all add: allocCell_def pushCell_def)
  have rows: "\<And>r. r \<in> set rows1 \<Longrightarrow> rowOf ?s3 r = rowOf s1 r"
    using w(2,3) s3 by (auto simp: rowOf_def)
  then have a: "map (rowOf ?s3) rows1 = map (rowOf s1) rows1" by (intro map_cong) auto
  have cu: "map (cellObjs ?s3) (cellArrays ?s3 cr1) = map (cellObjs s1) (cellArrays s1 cr1) @ [c]"
    using w(4) s3 by auto
  have abs: "packAbs (?s3, rows1, cr1, u)
           = (fst (packAbs (s1, rows1, cr1, used1)),
              fst (snd (packAbs (s1, rows1, cr1, used1))) @ [c], u)"
    using a cu by (simp add: packAbs_def)
  have wf': "packWf (?s3, rows1, cr1, u)"
    using w s3 by (fastforce simp: packWf_def list_all_iff)
  from abs wf' show ?thesis by simp
qed

lemma packStep_st_refines:
  assumes wf: "packWf st"
  shows "packAbs (packStep_st cc it st) = packStep cc it (packAbs st) \<and>
         packWf (packStep_st cc it st)"
proof -
  obtain s rows cr used where st: "st = (s, rows, cr, used)" by (cases st) auto
  obtain s1 rows1 cr1 used1 where f: "flush_st cc st = (s1, rows1, cr1, used1)"
    by (cases "flush_st cc st") auto
  from flush_st_refines[OF wf, of cc] f
  have fr: "packAbs (s1, rows1, cr1, used1) = flush cc (packAbs st)" "packWf (s1, rows1, cr1, used1)"
    by simp_all
  have used: "snd (snd (packAbs st)) = used" using st by (simp add: packAbs_def)
  show ?thesis
  proof (cases "itemSpan it cc \<ge> cc")
    case True
    let ?c = "\<lparr>item = it, span = cc, distributeEqually = False\<rparr>"
    have "packStep_st cc it st
            = (snd (allocCells [limit s1] (snd (allocCell ?c s1))), rows1 @ [limit s1 + 1], cr1, used1)"
      using True f by (simp add: packStep_st_def Let_def allocCell_def allocCells_def)
    moreover have "packStep cc it (packAbs st)
            = (fst (flush cc (packAbs st)) @ [\<lparr>cells = [?c]\<rparr>],
               fst (snd (flush cc (packAbs st))), snd (snd (flush cc (packAbs st))))"
      using True by (simp add: packStep_def Let_def split: prod.splits)
    moreover have "snd (snd (flush cc (packAbs st))) = used1"
      using fr(1)[symmetric] by (simp add: packAbs_def)
    ultimately show ?thesis using packWf_full_row[OF fr(2), of ?c] fr(1) by simp
  next
    case False
    let ?c = "\<lparr>item = it, span = itemSpan it cc, distributeEqually = False\<rparr>"
    show ?thesis
    proof (cases "used + itemSpan it cc > cc")
      case True
      have "packStep_st cc it st
              = (pushCell cr1 (limit s1) (snd (allocCell ?c s1)), rows1, cr1, used1 + itemSpan it cc)"
        using True False f st by (simp add: packStep_st_def Let_def allocCell_def)
      moreover have "packStep cc it (packAbs st)
              = (fst (flush cc (packAbs st)), fst (snd (flush cc (packAbs st))) @ [?c],
                 snd (snd (flush cc (packAbs st))) + itemSpan it cc)"
        using True False used by (auto simp add: packStep_def Let_def split: prod.splits)
      moreover have "snd (snd (flush cc (packAbs st))) = used1"
        using fr(1)[symmetric] by (simp add: packAbs_def)
      ultimately show ?thesis
        using packWf_push[OF fr(2), of ?c "used1 + itemSpan it cc"] fr(1) by simp
    next
      case fits: False
      have "packStep_st cc it st
              = (pushCell cr (limit s) (snd (allocCell ?c s)), rows, cr, used + itemSpan it cc)"
        using fits False st by (simp add: packStep_st_def Let_def allocCell_def)
      moreover have "packStep cc it (packAbs st)
              = (fst (packAbs st), fst (snd (packAbs st)) @ [?c], used + itemSpan it cc)"
        using fits False used by (auto simp add: packStep_def Let_def split: prod.splits)
      ultimately show ?thesis
        using packWf_push[OF wf[unfolded st], of ?c "used + itemSpan it cc"] st by simp
    qed
  qed
qed

lemma packLoop_st_refines:
  "packWf st \<Longrightarrow>
     packAbs (packLoop_st cc items k st) = packLoop cc (drop k (itemArrays (fst st) items)) (packAbs st) \<and>
     packWf (packLoop_st cc items k st) \<and>
     itemArrays (fst (packLoop_st cc items k st)) = itemArrays (fst st)"
proof (induction cc items k st rule: packLoop_st.induct)
  case (1 cc items k st)
  show ?case
  proof (cases "k < length (itemArrays (fst st) items)")
    case False
    then show ?thesis using "1.prems" by (subst (1 2 3) packLoop_st.simps) simp
  next
    case True
    let ?it = "itemArrays (fst st) items ! k"
    let ?st = "packStep_st cc ?it st"
    have eq: "packLoop_st cc items k st = packLoop_st cc items (k + 1) ?st"
      using True by (subst packLoop_st.simps) simp
    from packStep_st_refines[OF "1.prems", of cc ?it]
    have a: "packAbs ?st = packStep cc ?it (packAbs st)" "packWf ?st" by simp_all
    have ia: "itemArrays (fst ?st) = itemArrays (fst st)" by (rule packStep_st_itemArrays)
    have d: "drop k (itemArrays (fst st) items) = ?it # drop (k + 1) (itemArrays (fst st) items)"
      using True by (simp add: Cons_nth_drop_Suc)
    from "1.IH"[OF True a(2)] a(1) ia eq d show ?thesis by simp
  qed
qed

lemma packRows_st_refines:
  "map (rowOf (snd (packRows_st s items cc))) (fst (packRows_st s items cc))
     = packRows (itemArrays s items) cc"
proof -
  let ?s0 = "snd (allocCells [] s)"
  let ?st0 = "(?s0, [], limit s, 0 :: int)"
  have wf0: "packWf ?st0" by (simp add: packWf_def allocCells_def)
  have abs0: "packAbs ?st0 = ([], [], 0)" by (simp add: packAbs_def allocCells_def)
  have ia0: "itemArrays ?s0 = itemArrays s" by (simp add: allocCells_def)
  from packLoop_st_refines[OF wf0, of cc items 0] abs0 ia0
  have l: "packAbs (packLoop_st cc items 0 ?st0) = packLoop cc (itemArrays s items) ([], [], 0)"
    "packWf (packLoop_st cc items 0 ?st0)" by simp_all
  from flush_st_refines[OF l(2), of cc] l(1)
  have f: "packAbs (flush_st cc (packLoop_st cc items 0 ?st0))
             = flush cc (packLoop cc (itemArrays s items) ([], [], 0))" by simp
  obtain s' rows' cr' used' where r: "flush_st cc (packLoop_st cc items 0 ?st0) = (s', rows', cr', used')"
    by (cases "flush_st cc (packLoop_st cc items 0 ?st0)") auto
  have "packRows_st s items cc = (rows', s')"
    using r by (simp add: packRows_st_def allocCells_def)
  moreover have "map (rowOf s') rows' = fst (flush cc (packLoop cc (itemArrays s items) ([], [], 0)))"
    using f[symmetric] r by (simp add: packAbs_def)
  ultimately show ?thesis by (simp add: packRows_def)
qed

subsection \<open>Inputs are left as they were\<close>

lemma layoutSection_st_frame:
  "unchangedBelow (limit s) s (snd (layoutSection_st s sec width))"
proof -
  let ?cc = "getColCountFromWidth width"
  have step: "\<And>a. unchangedBelow (limit s) s
                 (snd (packRows_st (snd (transformRowBlocks_st s a ?cc))
                         (fst (transformRowBlocks_st s a ?cc)) ?cc))"
  proof -
    fix a
    let ?t = "transformRowBlocks_st s a ?cc"
    from transformRowBlocks_st_frame[of s a ?cc]
    have t: "unchangedBelow (limit s) s (snd ?t)" "limit (snd ?t) = limit s + 1" by simp_all
    have "unchangedBelow (limit (snd ?t)) (snd ?t) (snd (packRows_st (snd ?t) (fst ?t) ?cc))"
      by (rule packRows_st_frame)
    then have "unchangedBelow (limit s) (snd ?t) (snd (packRows_st (snd ?t) (fst ?t) ?cc))"
      using t(2) by (auto intro: unchangedBelow_mono)
    with t(1) show "unchangedBelow (limit s) s (snd (packRows_st (snd ?t) (fst ?t) ?cc))"
      by (rule unchangedBelow_trans)
  qed
  show ?thesis
  proof (cases "sectionObjs s sec")
    case (WidgetSectionObj sid ttl ws)
    with step[of ws] show ?thesis
      by (auto simp add: layoutSection_st_def Let_def split: prod.splits)
  next
    case (FilterGroupSectionObj sid g)
    with step[of "obj_widgets (groupObjs s g)"] show ?thesis
      by (auto simp add: layoutSection_st_def Let_def split: prod.splits)
  qed
qed

lemma layoutSection_st_refines:
  assumes "sectionObjs s sec = WidgetSectionObj sid ttl ws" "itemArrays s ws = map Widget wl"
  shows "map (rowOf (snd (layoutSection_st s sec width))) (obj_rows (fst (layoutSection_st s sec width)))
           = layout_rows (layoutSection (WidgetSection sid ttl wl) width)"
proof -
  let ?cc = "getColCountFromWidth width"
  let ?t = "transformRowBlocks_st s ws ?cc"
  from transformRowBlocks_st_frame[of s ws ?cc]
  have "itemArrays (snd ?t) (fst ?t) = transformRowBlocks (map Widget wl) ?cc"
    using assms(2) by auto
  with packRows_st_refines[of "snd ?t" "fst ?t" ?cc]
  have "map (rowOf (snd (packRows_st (snd ?t) (fst ?t) ?cc))) (fst (packRows_st (snd ?t) (fst ?t) ?cc))
          = packRows (transformRowBlocks (map Widget wl) ?cc) ?cc" by simp
  then show ?thesis using assms(1)
    by (auto simp add: layoutSection_st_def layoutSection_def Let_def split: prod.splits)
qed

text \<open>
  Claim C10.  The composer and the packer never change their input.  After
  \<^verbatim>\<open>transformRowBlocks\<close>, every array and object that existed before the call is as it was,
  the input array in particular (same elements, same order): the function works on a new
  array, which it returns and which holds the result of the value model.  \<^verbatim>\<open>packRows\<close>
  leaves every existing array and object as it was, its input array in particular; the
  cells it writes to are cells it made, and the rows it returns are those of the value
  model.  Consequently \<^verbatim>\<open>layoutSection\<close> leaves the section object and its array of widgets
  as they were.
\<close>

theorem layout_leaves_input_unmodified:
  "unchangedBelow (limit s) s (snd (transformRowBlocks_st s widgetsInOrder colCount)) \<and>
   (widgetsInOrder < limit s \<longrightarrow>
      itemArrays (snd (transformRowBlocks_st s widgetsInOrder colCount)) widgetsInOrder
        = itemArrays s widgetsInOrder) \<and>
   limit s \<le> fst (transformRowBlocks_st s widgetsInOrder colCount) \<and>
   itemArrays (snd (transformRowBlocks_st s widgetsInOrder colCount))
       (fst (transformRowBlocks_st s widgetsInOrder colCount))
     = transformRowBlocks (itemArrays s widgetsInOrder) colCount \<and>
   unchangedBelow (limit s) s (snd (packRows_st s items colCount)) \<and>
   (items < limit s \<longrightarrow>
      itemArrays (snd (packRows_st s items colCount)) items = itemArrays s items) \<and>
   map (rowOf (snd (packRows_st s items colCount))) (fst (packRows_st s items colCount))
     = packRows (itemArrays s items) colCount \<and>
   unchangedBelow (limit s) s (snd (layoutSection_st s sec width)) \<and>
   (sec < limit s \<longrightarrow>
      sectionObjs (snd (layoutSection_st s sec width)) sec = sectionObjs s sec) \<and>
   (sectionObjs s sec = WidgetSectionObj sid ttl ws \<and> ws < limit s \<longrightarrow>
      itemArrays (snd (layoutSection_st s sec width)) ws = itemArrays s ws) \<and>
   (sectionObjs s sec = WidgetSectionObj sid ttl ws \<and> itemArrays s ws = map Widget wl \<longrightarrow>
      map (rowOf (snd (layoutSection_st s sec width)))
          (obj_rows (fst (layoutSection_st s sec width)))
        = layout_rows (layoutSection (WidgetSection sid ttl wl) width))"
proof -
  from transformRowBlocks_st_frame[of s widgetsInOrder colCount]
  have t: "unchangedBelow (limit s) s (snd (transformRowBlocks_st s widgetsInOrder colCount))"
    and t3: "limit s \<le> fst (transformRowBlocks_st s widgetsInOrder colCount)"
    and t4: "itemArrays (snd (transformRowBlocks_st s widgetsInOrder colCount))
       (fst (transformRowBlocks_st s widgetsInOrder colCount))
     = transformRowBlocks (itemArrays s widgetsInOrder) colCount"
    by auto
  note p = packRows_st_frame[of s items colCount]
  note l = layoutSection_st_frame[of s sec width]
  have t2: "widgetsInOrder < limit s \<longrightarrow>
      itemArrays (snd (transformRowBlocks_st s widgetsInOrder colCount)) widgetsInOrder
        = itemArrays s widgetsInOrder"
    using t by (simp add: unchangedBelow_def)
  have p2: "items < limit s \<longrightarrow>
      itemArrays (snd (packRows_st s items colCount)) items = itemArrays s items"
    using p by (simp add: unchangedBelow_def)
  have l2: "sec < limit s \<longrightarrow>
      sectionObjs (snd (layoutSection_st s sec width)) sec = sectionObjs s sec"
    "sectionObjs s sec = WidgetSectionObj sid ttl ws \<and> ws < limit s \<longrightarrow>
      itemArrays (snd (layoutSection_st s sec width)) ws = itemArrays s ws"
    using l by (simp_all add: unchangedBelow_def)
  have l3: "sectionObjs s sec = WidgetSectionObj sid ttl ws \<and> itemArrays s ws = map Widget wl \<longrightarrow>
      map (rowOf (snd (layoutSection_st s sec width)))
          (obj_rows (fst (layoutSection_st s sec width)))
        = layout_rows (layoutSection (WidgetSection sid ttl wl) width)"
    using layoutSection_st_refines[of s sec sid ttl ws wl width] by simp
  from t t2 t3 t4 p p2 packRows_st_refines[of s items colCount] l l2 l3 show ?thesis by blast
qed

text \<open>A store with one array of four widgets at address 0 and a widget section at address 1.\<close>

definition exampleStore :: store where
  "exampleStore =
     \<lparr>itemArrays = (\<lambda>a. [])(0 := map Widget [newWidget ''w_0'' ''S'', newWidget ''w_1'' ''S'',
                                            newWidget ''w_2'' ''L'', newWidget ''w_3'' ''S'']),
      cellObjs = (\<lambda>a. \<lparr>item = Widget (newWidget [] []), span = 0, distributeEqually = False\<rparr>),
      cellArrays = (\<lambda>a. []),
      sectionObjs = (\<lambda>a. WidgetSectionObj ''s_0'' ''New Section'' 0),
      groupObjs = (\<lambda>a. \<lparr>obj_group_id = [], obj_group_title = [], obj_filters = [],
                         obj_widgets = 0, obj_minItemWidthPx = 280, obj_gapPx = 12,
                         obj_alignHeightsInRow = True\<rparr>),
      limit = 2\<rparr>"

theorem layout_leaves_input_unmodified_witness:
  "itemArrays (snd (transformRowBlocks_st exampleStore 0 4)) 0
     = map Widget [newWidget ''w_0'' ''S'', newWidget ''w_1'' ''S'', newWidget ''w_2'' ''L'',
                   newWidget ''w_3'' ''S''] \<and>
   itemArrays (snd (transformRowBlocks_st exampleStore 0 4)) (fst (transformRowBlocks_st exampleStore 0 4))
     = [RowBlock \<lparr>main = newWidget ''w_2'' ''L'',
                  rail = [newWidget ''w_0'' ''S'', newWidget ''w_1'' ''S''],
                  rowblock_id = ''rb-w_2''\<rparr>,
        Widget (newWidget ''w_3'' ''S'')] \<and>
   itemArrays (snd (packRows_st exampleStore 0 4)) 0 = itemArrays exampleStore 0 \<and>
   sectionObjs (snd (layoutSection_st exampleStore 1 1280)) 1
     = WidgetSectionObj ''s_0'' ''New Section'' 0 \<and>
   itemArrays (snd (layoutSection_st exampleStore 1 1280)) 0 = itemArrays exampleStore 0 \<and>
   map (map span \<circ> cells)
     (map (rowOf (snd (layoutSection_st exampleStore 1 1280)))
        (obj_rows (fst (layoutSection_st exampleStore 1 1280)))) = [[4], [4]]"
proof -
  have s: "limit exampleStore = 2" "sectionObjs exampleStore 1 = WidgetSectionObj ''s_0'' ''New Section'' 0"
    "itemArrays exampleStore 0 = map Widget [newWidget ''w_0'' ''S'', newWidget ''w_1'' ''S'',
                                            newWidget ''w_2'' ''L'', newWidget ''w_3'' ''S'']"
    by (simp_all add: exampleStore_def)
  have c: "transformRowBlocks (map Widget [newWidget ''w_0'' ''S'', newWidget ''w_1'' ''S'',
                                            newWidget ''w_2'' ''L'', newWidget ''w_3'' ''S'']) 4
     = [RowBlock \<lparr>main = newWidget ''w_2'' ''L'',
                  rail = [newWidget ''w_0'' ''S'', newWidget ''w_1'' ''S''],
                  rowblock_id = ''rb-w_2''\<rparr>,
        Widget (newWidget ''w_3'' ''S'')]"
    by (simp add: composer_eval)
  have r: "map (map span \<circ> cells) (layout_rows (layoutSection (WidgetSection ''s_0'' ''New Section''
             [newWidget ''w_0'' ''S'', newWidget ''w_1'' ''S'', newWidget ''w_2'' ''L'',
              newWidget ''w_3'' ''S'']) 1280)) = [[4], [4]]"
    unfolding layoutSection_def getColCountFromWidth_def using c
    by (simp add: packer_eval)
  from layout_leaves_input_unmodified
         [of exampleStore 0 4 0 1 1280 "''s_0''" "''New Section''" 0
             "[newWidget ''w_0'' ''S'', newWidget ''w_1'' ''S'', newWidget ''w_2'' ''L'',
               newWidget ''w_3'' ''S'']"]
    s c r
  show ?thesis by simp
qed

end
